theory Spec2Isabelle
  imports Complex_Main
begin

section \<open>JavaScript values\<close>

text \<open>
  Errors are values. Every \<^verbatim>\<open>throw\<close> of the sources raises a plain \<^verbatim>\<open>Error\<close>; the built-in
  functions they call raise \<^verbatim>\<open>TypeError\<close>, \<^verbatim>\<open>RangeError\<close> or \<^verbatim>\<open>SyntaxError\<close>. Each carries its
  message.
\<close>

datatype js_error = Error string | TypeError string | RangeError string | SyntaxError string

fun message :: "js_error \<Rightarrow> string" where
  "message (Error m) = m"
| "message (TypeError m) = m"
| "message (RangeError m) = m"
| "message (SyntaxError m) = m"

text \<open>
  A JavaScript number is a double. Nothing in the sources computes with numbers: they are
  tested for truthiness, compared by \<^verbatim>\<open>typeof\<close> and passed through, so a finite number is kept
  as the rational it denotes (\<open>+0\<close> and \<open>-0\<close> are not told apart).
\<close>

datatype jsnum = NaN | PosInf | NegInf | Fin rat

subsection \<open>Decimal numerals\<close>

definition digit_char :: "nat \<Rightarrow> char" where
  "digit_char d = ''0123456789'' ! d"

fun show_nat :: "nat \<Rightarrow> string" where
  "show_nat n = (if n < 10 then [digit_char n] else show_nat (n div 10) @ [digit_char (n mod 10)])"

declare show_nat.simps [simp del]

text \<open>\<^verbatim>\<open>BigInt.prototype.toString()\<close>, radix 10.\<close>

definition bigint_toString :: "int \<Rightarrow> string" where
  "bigint_toString i = (if i < 0 then CHR ''-'' # show_nat (nat (- i)) else show_nat (nat i))"

section \<open>The JSON-safety sanitizer (facilitator.js, toJsonSafe)\<close>

subsection \<open>Object graphs\<close>

text \<open>
  The sanitizer tests objects for identity (\<^verbatim>\<open>seen.has(data)\<close>), so its input is a graph:
  a heap of objects, and values that are primitive or the address of a heap object. A
  function is not an object for \<^verbatim>\<open>typeof\<close> and is never walked, so it is kept with the
  primitives. A symbol carries its description.
\<close>

type_synonym addr = nat

datatype prim =
    VUndefined
  | VNull
  | VBool bool
  | VNum jsnum
  | VStr string
  | VBigInt int
  | VSymbol string
  | VFunction

datatype jsval = Prim prim | Ref addr

text \<open>
  The kinds of object the sanitizer tells apart with \<^verbatim>\<open>instanceof\<close> and \<^verbatim>\<open>Array.isArray\<close>.
  A date holds its ISO-8601 text, or nothing when it is an invalid date. A set lists its
  elements in insertion order. A map lists its entries in insertion order; its keys are
  strings. An array is dense and has no enumerable property besides its elements. Every
  other object is given by what \<^verbatim>\<open>Object.entries\<close>
  returns for it: its own enumerable string-keyed properties, with distinct keys, in the
  engine's enumeration order. Property getters and proxies are outside the model.
\<close>

datatype hobj =
    DateObj "string option"
  | SetObj "jsval list"
  | MapObj "(string \<times> jsval) list"
  | ArrayObj "jsval list"
  | PlainObj "(string \<times> jsval) list"

type_synonym heap = "hobj list"

text \<open>
  The result of the sanitizer is a freshly built tree. A leaf \<open>Raw v\<close> is an input value
  stored as it is: a primitive, or a reference to an input object that was not sanitized.
\<close>

datatype outval = Raw jsval | OArr "outval list" | OObj "(string \<times> outval) list"

subsection \<open>Built-ins used by the sanitizer\<close>

text \<open>\<^verbatim>\<open>Date.prototype.toISOString\<close> raises a RangeError on an invalid date.\<close>

definition toISOString :: "string option \<Rightarrow> js_error + string" where
  "toISOString d = (case d of None \<Rightarrow> Inl (RangeError ''Invalid time value'') | Some t \<Rightarrow> Inr t)"

text \<open>\<^verbatim>\<open>Symbol.prototype.toString\<close>.\<close>

definition symbol_toString :: "string \<Rightarrow> string" where
  "symbol_toString d = ''Symbol('' @ d @ '')''"

text \<open>\<^verbatim>\<open>Object.entries\<close> of a dense array: the decimal indices with the elements.\<close>

definition index_entries :: "'a list \<Rightarrow> (string \<times> 'a) list" where
  "index_entries xs = zip (map show_nat [0..<length xs]) xs"

text \<open>
  An integer index is the canonical decimal numeral of a number below \<open>2^32 - 1\<close>. The
  own properties of an ordinary object are enumerated with the integer indices first, in
  ascending order, then the other string keys in the order they were created.
\<close>

definition is_digit :: "char \<Rightarrow> bool" where
  "is_digit c = (c \<in> set ''0123456789'')"

definition digit_val :: "char \<Rightarrow> nat" where
  "digit_val c = length (takeWhile (\<lambda>d. d \<noteq> c) ''0123456789'')"

definition read_nat :: "string \<Rightarrow> nat" where
  "read_nat s = foldl (\<lambda>acc c. acc * 10 + digit_val c) 0 s"

definition is_array_index :: "string \<Rightarrow> bool" where
  "is_array_index k =
     (k \<noteq> [] \<and> list_all is_digit k \<and> (k = ''0'' \<or> hd k \<noteq> CHR ''0'') \<and> read_nat k < 2 ^ 32 - 1)"

text \<open>
  Property assignment \<^verbatim>\<open>o[k] = v\<close> on an ordinary object: an existing property keeps its
  place, a new one is created.
\<close>

fun insert_index :: "string \<Rightarrow> 'a \<Rightarrow> (string \<times> 'a) list \<Rightarrow> (string \<times> 'a) list" where
  "insert_index k v [] = [(k, v)]"
| "insert_index k v ((k', v') # ps) =
     (if is_array_index k' \<and> read_nat k' < read_nat k then (k', v') # insert_index k v ps
      else (k, v) # (k', v') # ps)"

definition set_prop :: "(string \<times> 'a) list \<Rightarrow> string \<Rightarrow> 'a \<Rightarrow> (string \<times> 'a) list" where
  "set_prop ps k v =
     (if k \<in> fst ` set ps then map (\<lambda>(k', v'). if k' = k then (k', v) else (k', v')) ps
      else if is_array_index k then insert_index k v ps
      else ps @ [(k, v)])"

text \<open>\<^verbatim>\<open>Object.fromEntries\<close> on the entries of a map with string keys.\<close>

definition fromEntries :: "(string \<times> 'a) list \<Rightarrow> (string \<times> 'a) list" where
  "fromEntries kvs = foldl (\<lambda>ps (k, v). set_prop ps k v) [] kvs"

subsection \<open>toJsonSafe\<close>

definition circular_marker :: outval where
  "circular_marker = OObj [(''[Circular]'', Raw (Prim (VBool True)))]"

text \<open>
  The \<^verbatim>\<open>catch\<close> clause of toJsonSafe: whatever was raised inside the \<^verbatim>\<open>try\<close> block is raised
  again as a plain Error with the prefixed message.
\<close>

definition rethrow :: "js_error \<Rightarrow> js_error" where
  "rethrow e = Error (''Failed to convert to JSON-safe format: '' @ message e)"

definition catch :: "(js_error + 'a) option \<Rightarrow> (js_error + 'a) option" where
  "catch r = (case r of None \<Rightarrow> None | Some (Inl e) \<Rightarrow> Some (Inl (rethrow e)) | Some (Inr x) \<Rightarrow> Some (Inr x))"

definition as_object :: "(js_error + (string \<times> outval) list \<times> addr set) option
    \<Rightarrow> (js_error + outval \<times> addr set) option" where
  "as_object r = (case r of None \<Rightarrow> None | Some (Inl e) \<Rightarrow> Some (Inl e)
                  | Some (Inr (ps, seen)) \<Rightarrow> Some (Inr (OObj ps, seen)))"

text \<open>
  The assignment \<^verbatim>\<open>result[key] = y\<close> in the \<^verbatim>\<open>reduce\<close> callback, where \<open>result\<close> started as
  \<^verbatim>\<open>{}\<close>. The keys come from \<^verbatim>\<open>Object.entries\<close>, distinct and in enumeration order, so the
  assignment creates the last property of \<open>result\<close>; except at the key \<^verbatim>\<open>__proto__\<close>, where
  it runs the setter inherited from \<^verbatim>\<open>Object.prototype\<close>: no property is created (an
  object \<open>y\<close> becomes the prototype of \<open>result\<close>, any other \<open>y\<close> is ignored). The result
  tree lists own properties; the prototype is not part of it.
\<close>

definition assign :: "(string \<times> outval) list \<Rightarrow> string \<Rightarrow> outval \<Rightarrow> (string \<times> outval) list" where
  "assign result key y = (if key = ''__proto__'' then result else result @ [(key, y)])"

text \<open>
  The \<^verbatim>\<open>WeakSet seen\<close> is threaded through the calls as the set of heap addresses added so
  far; nothing is ever removed from it. The arrays and objects that toJsonSafe builds
  itself (\<^verbatim>\<open>Array.from(data)\<close>, \<^verbatim>\<open>Object.fromEntries(data)\<close>) are new, referenced from
  nowhere else, and so never found in \<open>seen\<close>: the call on such an object is its
  \<^verbatim>\<open>try\<close> block, which is why a set or a map passed to toJsonSafe goes through two
  \<^verbatim>\<open>catch\<close> clauses.

  The first argument is fuel: the number of nested toJsonSafe calls on heap objects that
  may still be entered. \<open>None\<close> means the fuel ran out. An error aborts the whole
  traversal, so it carries no \<open>seen\<close>. A reference to an address outside the heap does not
  occur in a program; the model answers it with an error of its own.

  \<open>reduce_entries\<close> is the \<^verbatim>\<open>Object.entries(data).reduce(..., {})\<close> of lines 27 to 61, on the
  entries that are left and the \<open>result\<close> accumulated so far. \<open>map_items\<close> is the
  \<^verbatim>\<open>value.map(...)\<close> of lines 47 to 49.
\<close>

function toJsonSafe_fuel :: "nat \<Rightarrow> heap \<Rightarrow> addr set \<Rightarrow> jsval \<Rightarrow> (js_error + outval \<times> addr set) option"
  and reduce_entries :: "nat \<Rightarrow> heap \<Rightarrow> addr set \<Rightarrow> (string \<times> jsval) list \<Rightarrow> (string \<times> outval) list
      \<Rightarrow> (js_error + (string \<times> outval) list \<times> addr set) option"
  and map_items :: "nat \<Rightarrow> heap \<Rightarrow> addr set \<Rightarrow> jsval list \<Rightarrow> (js_error + outval list \<times> addr set) option"
where
  "toJsonSafe_fuel n h seen (Prim p) = Some (Inl (Error ''Input must be a valid object or array''))"
| "toJsonSafe_fuel 0 h seen (Ref a) =
     (if a \<in> seen then Some (Inr (circular_marker, seen)) else None)"
| "toJsonSafe_fuel (Suc n) h seen (Ref a) =
     (if a \<in> seen then Some (Inr (circular_marker, seen))
      else if length h \<le> a then Some (Inl (Error ''unallocated address''))
      else (case h ! a of
          DateObj d \<Rightarrow>
            (case toISOString d of
               Inl e \<Rightarrow> Some (Inl (rethrow e))
             | Inr t \<Rightarrow> Some (Inr (Raw (Prim (VStr t)), insert a seen)))
        | SetObj xs \<Rightarrow>
            catch (catch (as_object (reduce_entries n h (insert a seen) (index_entries xs) [])))
        | MapObj kvs \<Rightarrow>
            catch (catch (as_object (reduce_entries n h (insert a seen) (fromEntries kvs) [])))
        | ArrayObj xs \<Rightarrow>
            catch (as_object (reduce_entries n h (insert a seen) (index_entries xs) []))
        | PlainObj kvs \<Rightarrow>
            catch (as_object (reduce_entries n h (insert a seen) kvs []))))"
| "reduce_entries n h seen [] result = Some (Inr (result, seen))"
| "reduce_entries n h seen ((key, Prim p) # es) result =
     (case p of
        VUndefined \<Rightarrow> reduce_entries n h seen es result
      | VNull \<Rightarrow> reduce_entries n h seen es result
      | VBigInt i \<Rightarrow> reduce_entries n h seen es (assign result key (Raw (Prim (VStr (bigint_toString i)))))
      | VSymbol d \<Rightarrow> reduce_entries n h seen es (assign result key (Raw (Prim (VStr (symbol_toString d)))))
      | VFunction \<Rightarrow> reduce_entries n h seen es (assign result key (Raw (Prim (VStr ''[Function]''))))
      | _ \<Rightarrow> reduce_entries n h seen es (assign result key (Raw (Prim p))))"
| "reduce_entries n h seen ((key, Ref a) # es) result =
     (if length h \<le> a then Some (Inl (Error ''unallocated address''))
      else (case h ! a of
          DateObj d \<Rightarrow>
            (case toISOString d of
               Inl e \<Rightarrow> Some (Inl e)
             | Inr t \<Rightarrow> reduce_entries n h seen es (assign result key (Raw (Prim (VStr t)))))
        | SetObj xs \<Rightarrow> reduce_entries n h seen es (assign result key (OArr (map Raw xs)))
        | MapObj kvs \<Rightarrow>
            reduce_entries n h seen es (assign result key (OObj (fromEntries (map (\<lambda>(k, v). (k, Raw v)) kvs))))
        | ArrayObj xs \<Rightarrow>
            (case map_items n h seen xs of
               None \<Rightarrow> None
             | Some (Inl e) \<Rightarrow> Some (Inl e)
             | Some (Inr (ys, seen')) \<Rightarrow> reduce_entries n h seen' es (assign result key (OArr ys)))
        | PlainObj kvs \<Rightarrow>
            (case toJsonSafe_fuel n h seen (Ref a) of
               None \<Rightarrow> None
             | Some (Inl e) \<Rightarrow> Some (Inl e)
             | Some (Inr (y, seen')) \<Rightarrow> reduce_entries n h seen' es (assign result key y))))"
| "map_items n h seen [] = Some (Inr ([], seen))"
| "map_items n h seen (Prim p # xs) =
     (case map_items n h seen xs of
        None \<Rightarrow> None
      | Some (Inl e) \<Rightarrow> Some (Inl e)
      | Some (Inr (ys, seen')) \<Rightarrow> Some (Inr (Raw (Prim p) # ys, seen')))"
| "map_items n h seen (Ref a # xs) =
     (case toJsonSafe_fuel n h seen (Ref a) of
        None \<Rightarrow> None
      | Some (Inl e) \<Rightarrow> Some (Inl e)
      | Some (Inr (y, seen')) \<Rightarrow>
          (case map_items n h seen' xs of
             None \<Rightarrow> None
           | Some (Inl e) \<Rightarrow> Some (Inl e)
           | Some (Inr (ys, seen'')) \<Rightarrow> Some (Inr (y # ys, seen''))))"
  by pat_completeness auto
termination
  by (relation "inv_image (less_than <*lex*> less_than <*lex*> less_than)
        (\<lambda>x. case x of
           Inl (n, h, seen, v) \<Rightarrow> (n, 0::nat, 0::nat)
         | Inr (Inl (n, h, seen, es, result)) \<Rightarrow> (n, 2, length es)
         | Inr (Inr (n, h, seen, xs)) \<Rightarrow> (n, 1, length xs))") auto

text \<open>
  The exported function: the default argument \<^verbatim>\<open>seen = new WeakSet()\<close> is the empty set.
  The nesting of calls on heap objects that are not in \<open>seen\<close> cannot be deeper than the
  heap has objects, so this fuel never runs out (lemma \<open>fuel_suffices\<close> below), and any
  larger fuel gives the same result (lemma \<open>toJsonSafe_any_fuel\<close>).
\<close>

definition toJsonSafe :: "heap \<Rightarrow> jsval \<Rightarrow> (js_error + outval) option" where
  "toJsonSafe h data = map_option (map_sum id fst) (toJsonSafe_fuel (Suc (length h)) h {} data)"

text \<open>
  The heap objects that are not yet in \<open>seen\<close>: every call of toJsonSafe that goes on to
  walk an object removes one of them, which bounds the nesting of the calls.
\<close>

definition unseen :: "heap \<Rightarrow> addr set \<Rightarrow> addr set" where
  "unseen h seen = {a. a < length h \<and> a \<notin> seen}"

text \<open>
  What the \<^verbatim>\<open>reduce\<close> callback of lines 27 to 61 does with one field. A field whose value is
  \<^verbatim>\<open>undefined\<close> or \<^verbatim>\<open>null\<close> leaves \<open>result\<close> as it is. For any other field,
  \<open>field_result h seen v y\<close> relates the value \<open>v\<close> of the field to what is stored for its
  key, for a traversal that starts with \<open>seen\<close>; it records the branch taken, used below
  to state the shape of the result.
\<close>

definition dropped :: "jsval \<Rightarrow> bool" where
  "dropped v = (v = Prim VUndefined \<or> v = Prim VNull)"

definition field_result :: "heap \<Rightarrow> addr set \<Rightarrow> jsval \<Rightarrow> outval \<Rightarrow> bool" where
  "field_result h seen v y =
     (case v of
        Prim p \<Rightarrow>
          (case p of
             VBigInt i \<Rightarrow> y = Raw (Prim (VStr (bigint_toString i)))
           | VSymbol d \<Rightarrow> y = Raw (Prim (VStr (symbol_toString d)))
           | VFunction \<Rightarrow> y = Raw (Prim (VStr ''[Function]''))
           | _ \<Rightarrow> y = Raw (Prim p))
      | Ref b \<Rightarrow>
          (case h ! b of
             DateObj d \<Rightarrow> (case d of None \<Rightarrow> False | Some t \<Rightarrow> y = Raw (Prim (VStr t)))
           | SetObj xs \<Rightarrow> y = OArr (map Raw xs)
           | MapObj kvs \<Rightarrow> y = OObj (fromEntries (map (\<lambda>(k, v). (k, Raw v)) kvs))
           | ArrayObj xs \<Rightarrow> (case y of OArr ys \<Rightarrow> True | _ \<Rightarrow> False)
           | PlainObj kvs \<Rightarrow> (if b \<in> seen then y = circular_marker else True)))"

text \<open>
  The values a JSON serializer takes without raising and without dropping them: strings,
  numbers and booleans, and arrays and objects of such values. A big integer makes
  \<^verbatim>\<open>JSON.stringify\<close> raise a TypeError; a raw reference is an input object that was not
  converted.
\<close>

fun json_native :: "outval \<Rightarrow> bool" where
  "json_native (Raw (Prim p)) = (case p of VBool b \<Rightarrow> True | VNum x \<Rightarrow> True | VStr s \<Rightarrow> True | _ \<Rightarrow> False)"
| "json_native (Raw (Ref a)) = False"
| "json_native (OArr ys) = list_all json_native ys"
| "json_native (OObj ps) = list_all (\<lambda>(k, y). json_native y) ps"

section \<open>The payment-payload codec (utils/paymentUtils.js)\<close>

subsection \<open>Values\<close>

text \<open>
  The codec works on trees: what \<^verbatim>\<open>JSON.parse\<close> returns, with big integers where
  \<^verbatim>\<open>BigInt(...)\<close> put them. An object is the list of its own properties, with distinct keys, in
  enumeration order. A property that is absent reads as \<^verbatim>\<open>undefined\<close>, which is \<open>None\<close>
  here; no field of a payload holds \<^verbatim>\<open>undefined\<close>, a function or a symbol (JSON text has
  none, and \<^verbatim>\<open>JSON.stringify\<close> would drop such a field).
\<close>

datatype jval =
    JNull
  | JBool bool
  | JNum jsnum
  | JStr string
  | JBigInt int
  | JArr "jval list"
  | JObj "(string \<times> jval) list"

text \<open>\<^verbatim>\<open>typeof\<close>, and the truthiness that \<^verbatim>\<open>!x\<close> tests.\<close>

fun typeof :: "jval option \<Rightarrow> string" where
  "typeof None = ''undefined''"
| "typeof (Some JNull) = ''object''"
| "typeof (Some (JBool b)) = ''boolean''"
| "typeof (Some (JNum x)) = ''number''"
| "typeof (Some (JStr s)) = ''string''"
| "typeof (Some (JBigInt i)) = ''bigint''"
| "typeof (Some (JArr xs)) = ''object''"
| "typeof (Some (JObj ps)) = ''object''"

fun truthy :: "jval option \<Rightarrow> bool" where
  "truthy None = False"
| "truthy (Some JNull) = False"
| "truthy (Some (JBool b)) = b"
| "truthy (Some (JNum x)) = (x \<noteq> NaN \<and> x \<noteq> Fin 0)"
| "truthy (Some (JStr s)) = (s \<noteq> [])"
| "truthy (Some (JBigInt i)) = (i \<noteq> 0)"
| "truthy (Some (JArr xs)) = True"
| "truthy (Some (JObj ps)) = True"

text \<open>
  Property access \<^verbatim>\<open>x.k\<close> for the keys the codec reads (\<^verbatim>\<open>payload\<close>, \<^verbatim>\<open>type\<close>,
  \<^verbatim>\<open>authorization\<close>, \<^verbatim>\<open>value\<close>, \<^verbatim>\<open>validAfter\<close>, \<^verbatim>\<open>validBefore\<close>, \<^verbatim>\<open>nonce\<close>, \<^verbatim>\<open>version\<close>,
  \<^verbatim>\<open>signature\<close>, \<^verbatim>\<open>error\<close>), none of which is a built-in property of a string, a number, a
  boolean, a big integer or an array. On \<^verbatim>\<open>undefined\<close> and \<^verbatim>\<open>null\<close> the access raises a
  TypeError: \<open>getp\<close>. Where the receiver was tested truthy before, nothing can be raised:
  \<open>readp\<close>.
\<close>

fun readp :: "jval option \<Rightarrow> string \<Rightarrow> jval option" where
  "readp (Some (JObj ps)) k = map_of ps k"
| "readp _ k = None"

fun getp :: "jval option \<Rightarrow> string \<Rightarrow> js_error + jval option" where
  "getp None k = Inl (TypeError (''Cannot read properties of undefined (reading '' @ k @ '')''))"
| "getp (Some JNull) k = Inl (TypeError (''Cannot read properties of null (reading '' @ k @ '')''))"
| "getp (Some v) k = Inr (readp (Some v) k)"

text \<open>
  Object spread \<^verbatim>\<open>{...x}\<close>: the own enumerable properties of \<open>x\<close>; none for \<^verbatim>\<open>undefined\<close>,
  \<^verbatim>\<open>null\<close>, a boolean, a number or a big integer; the indexed elements of an array and the
  indexed characters of a string.
\<close>

fun spread :: "jval option \<Rightarrow> (string \<times> jval) list" where
  "spread (Some (JObj ps)) = ps"
| "spread (Some (JArr xs)) = index_entries xs"
| "spread (Some (JStr s)) = index_entries (map (\<lambda>c. JStr [c]) s)"
| "spread _ = []"

definition andThen :: "js_error + 'a \<Rightarrow> ('a \<Rightarrow> js_error + 'b) \<Rightarrow> js_error + 'b" where
  "andThen r f = (case r of Inl e \<Rightarrow> Inl e | Inr x \<Rightarrow> f x)"

subsection \<open>Conversion to text and to big integers\<close>

text \<open>
  \<^verbatim>\<open>Number.prototype.toString\<close> on a double is not modelled: the text of a number is taken
  from a parameter \<open>nt\<close>. The codec meets it only when a field that should hold a big
  integer or a numeral holds a number or an array of numbers.
\<close>

fun join_comma :: "string list \<Rightarrow> string" where
  "join_comma [] = []"
| "join_comma [s] = s"
| "join_comma (s # t # ss) = s @ '','' @ join_comma (t # ss)"

text \<open>
  \<^verbatim>\<open>ToString\<close>. An object that has a property \<^verbatim>\<open>toString\<close> of its own (which is not a
  function, in a tree of data) cannot be converted to a primitive. An array is joined
  with commas, \<^verbatim>\<open>null\<close> elements giving the empty string.
\<close>

fun sequence :: "(js_error + 'a) list \<Rightarrow> js_error + 'a list" where
  "sequence [] = Inr []"
| "sequence (r # rs) =
     (case r of Inl e \<Rightarrow> Inl e
      | Inr x \<Rightarrow> (case sequence rs of Inl e \<Rightarrow> Inl e | Inr xs \<Rightarrow> Inr (x # xs)))"

fun js_ToString :: "(jsnum \<Rightarrow> string) \<Rightarrow> jval \<Rightarrow> js_error + string" where
  "js_ToString nt JNull = Inr ''null''"
| "js_ToString nt (JBool b) = Inr (if b then ''true'' else ''false'')"
| "js_ToString nt (JNum x) = Inr (nt x)"
| "js_ToString nt (JStr s) = Inr s"
| "js_ToString nt (JBigInt i) = Inr (bigint_toString i)"
| "js_ToString nt (JArr xs) =
     map_sum id join_comma (sequence (map (\<lambda>x. if x = JNull then Inr [] else js_ToString nt x) xs))"
| "js_ToString nt (JObj ps) =
     (if ''toString'' \<in> fst ` set ps then Inl (TypeError ''Cannot convert object to primitive value'')
      else Inr ''[object Object]'')"

text \<open>The method call \<^verbatim>\<open>x.toString()\<close>.\<close>

fun call_toString :: "(jsnum \<Rightarrow> string) \<Rightarrow> jval option \<Rightarrow> js_error + string" where
  "call_toString nt None = Inl (TypeError ''Cannot read properties of undefined (reading toString)'')"
| "call_toString nt (Some JNull) = Inl (TypeError ''Cannot read properties of null (reading toString)'')"
| "call_toString nt (Some v) = js_ToString nt v"

text \<open>
  \<^verbatim>\<open>StringToBigInt\<close>: white space around the literal is skipped; the empty literal is zero;
  a literal is a decimal numeral with an optional sign, or an unsigned numeral with one
  of the prefixes \<^verbatim>\<open>0x\<close>, \<^verbatim>\<open>0o\<close>, \<^verbatim>\<open>0b\<close> in either case. A string is the list of its code
  units, and the character type holds the code units \<^verbatim>\<open>U+0000\<close> to \<^verbatim>\<open>U+00FF\<close>. The white space
  of ECMAScript (\<^verbatim>\<open>StrWhiteSpaceChar\<close>) in that range is tab, line feed, vertical tab, form
  feed, carriage return, space and the no-break space \<^verbatim>\<open>U+00A0\<close>; the others (\<^verbatim>\<open>U+FEFF\<close>,
  \<^verbatim>\<open>U+2028\<close>, \<^verbatim>\<open>U+2029\<close> and the space separators from \<^verbatim>\<open>U+1680\<close> on) are beyond it.
\<close>

definition is_space :: "char \<Rightarrow> bool" where
  "is_space c = (c \<in> set [CHR 0x09, CHR 0x0A, CHR 0x0B, CHR 0x0C, CHR 0x0D, CHR 0x20, CHR 0xA0])"

definition trim :: "string \<Rightarrow> string" where
  "trim s = rev (dropWhile is_space (rev (dropWhile is_space s)))"

definition index_in :: "string \<Rightarrow> char \<Rightarrow> nat" where
  "index_in ds c = length (takeWhile (\<lambda>d. d \<noteq> c) ds)"

definition radix_val :: "char \<Rightarrow> nat" where
  "radix_val c =
     (if c \<in> set ''0123456789'' then index_in ''0123456789'' c
      else if c \<in> set ''abcdef'' then 10 + index_in ''abcdef'' c
      else 10 + index_in ''ABCDEF'' c)"

definition read_radix :: "nat \<Rightarrow> string \<Rightarrow> string \<Rightarrow> nat option" where
  "read_radix r ds s =
     (if s \<noteq> [] \<and> list_all (\<lambda>c. c \<in> set ds) s
      then Some (foldl (\<lambda>acc c. acc * r + radix_val c) 0 s) else None)"

definition StringToBigInt :: "string \<Rightarrow> int option" where
  "StringToBigInt s =
     (let t = trim s in
      if t = [] then Some 0
      else if take 2 t = ''0x'' \<or> take 2 t = ''0X''
        then map_option int (read_radix 16 ''0123456789abcdefABCDEF'' (drop 2 t))
      else if take 2 t = ''0o'' \<or> take 2 t = ''0O''
        then map_option int (read_radix 8 ''01234567'' (drop 2 t))
      else if take 2 t = ''0b'' \<or> take 2 t = ''0B''
        then map_option int (read_radix 2 ''01'' (drop 2 t))
      else if hd t = CHR ''+'' then map_option int (read_radix 10 ''0123456789'' (tl t))
      else if hd t = CHR ''-'' then map_option (\<lambda>n. - int n) (read_radix 10 ''0123456789'' (tl t))
      else map_option int (read_radix 10 ''0123456789'' t))"

text \<open>
  The function \<^verbatim>\<open>BigInt(x)\<close>: a TypeError on \<^verbatim>\<open>undefined\<close> and \<^verbatim>\<open>null\<close>, a RangeError on a
  number that is not an integer, a SyntaxError on a string that is no literal. An array
  or an object is converted to its string first.
\<close>

definition string_BigInt :: "string \<Rightarrow> js_error + int" where
  "string_BigInt s = (case StringToBigInt s of
       None \<Rightarrow> Inl (SyntaxError (''Cannot convert '' @ s @ '' to a BigInt''))
     | Some i \<Rightarrow> Inr i)"

fun js_BigInt :: "(jsnum \<Rightarrow> string) \<Rightarrow> jval option \<Rightarrow> js_error + int" where
  "js_BigInt nt None = Inl (TypeError ''Cannot convert undefined to a BigInt'')"
| "js_BigInt nt (Some JNull) = Inl (TypeError ''Cannot convert null to a BigInt'')"
| "js_BigInt nt (Some (JBool b)) = Inr (if b then 1 else 0)"
| "js_BigInt nt (Some (JNum x)) =
     (case x of
        Fin q \<Rightarrow> (if of_int \<lfloor>q\<rfloor> = q then Inr \<lfloor>q\<rfloor>
                  else Inl (RangeError (''The number '' @ nt x @ '' cannot be converted to a BigInt because it is not an integer'')))
      | _ \<Rightarrow> Inl (RangeError (''The number '' @ nt x @ '' cannot be converted to a BigInt because it is not an integer'')))"
| "js_BigInt nt (Some (JStr s)) = string_BigInt s"
| "js_BigInt nt (Some (JBigInt i)) = Inr i"
| "js_BigInt nt (Some (JArr xs)) = andThen (js_ToString nt (JArr xs)) string_BigInt"
| "js_BigInt nt (Some (JObj ps)) = andThen (js_ToString nt (JObj ps)) string_BigInt"

subsection \<open>JSON text and the base64 transport\<close>

text \<open>
  A text is represented by what \<^verbatim>\<open>JSON.parse\<close> makes of it: the tree it denotes, or nothing
  when it is not JSON. \<^verbatim>\<open>JSON.stringify\<close> raises a TypeError on a big integer and writes
  \<^verbatim>\<open>null\<close> for a number that is not finite.
\<close>

datatype jstext = JsonText jval | NotJson string

fun has_bigint :: "jval \<Rightarrow> bool" where
  "has_bigint (JBigInt i) = True"
| "has_bigint (JArr xs) = list_ex has_bigint xs"
| "has_bigint (JObj ps) = list_ex (\<lambda>(k, v). has_bigint v) ps"
| "has_bigint _ = False"

fun json_written :: "jval \<Rightarrow> jval" where
  "json_written (JNum x) = (case x of Fin q \<Rightarrow> JNum (Fin q) | _ \<Rightarrow> JNull)"
| "json_written (JArr xs) = JArr (map json_written xs)"
| "json_written (JObj ps) = JObj (map (\<lambda>(k, v). (k, json_written v)) ps)"
| "json_written v = v"

definition JSON_stringify :: "jval \<Rightarrow> js_error + jstext" where
  "JSON_stringify v =
     (if has_bigint v then Inl (TypeError ''Do not know how to serialize a BigInt'')
      else Inr (JsonText (json_written v)))"

fun JSON_parse :: "jstext \<Rightarrow> js_error + jval" where
  "JSON_parse (JsonText v) = Inr v"
| "JSON_parse (NotJson s) = Inl (SyntaxError ''Unexpected token in JSON'')"

text \<open>
  The values that \<^verbatim>\<open>JSON.stringify\<close> followed by \<^verbatim>\<open>JSON.parse\<close> returns as they are: no big
  integer, and no number that is not finite.
\<close>

fun json_data :: "jval \<Rightarrow> bool" where
  "json_data (JNum x) = (case x of Fin q \<Rightarrow> True | _ \<Rightarrow> False)"
| "json_data (JBigInt i) = False"
| "json_data (JArr xs) = list_all json_data xs"
| "json_data (JObj ps) = list_all (\<lambda>(k, v). json_data v) ps"
| "json_data _ = True"

text \<open>
  \<^verbatim>\<open>safeBase64Encode\<close> and \<^verbatim>\<open>safeBase64Decode\<close> are imported from \<^verbatim>\<open>./base64.js\<close>, which is not
  among the sources: they are parameters, on an encoded form \<open>'w\<close> that is left open.
\<close>

record 'w platform =
  safeBase64Encode :: "jstext \<Rightarrow> 'w"
  safeBase64Decode :: "'w \<Rightarrow> jstext"
  numberToString :: "jsnum \<Rightarrow> string"

text \<open>
  A platform on which the codec can be evaluated: the transport is the identity on texts,
  and the text of a number is a placeholder, which none of the inputs evaluated below
  reaches.
\<close>

definition placeholder_text :: "jsnum \<Rightarrow> string" where
  "placeholder_text x = ''<number>''"

definition identity_platform :: "jstext platform" where
  "identity_platform =
     \<lparr>safeBase64Encode = id, safeBase64Decode = id, numberToString = placeholder_text\<rparr>"

subsection \<open>encodePaymentPayload, decodePaymentPayload, validatePaymentPayload\<close>

definition is_authorization :: "jval option \<Rightarrow> bool" where
  "is_authorization ty = (ty = Some (JStr ''authorization'') \<or> ty = Some (JStr ''authorizationEip3009''))"

definition encodePaymentPayload :: "'w platform \<Rightarrow> jval \<Rightarrow> js_error + 'w" where
  "encodePaymentPayload env payment =
     andThen (getp (Some payment) ''payload'') (\<lambda>payload.
     andThen (getp payload ''type'') (\<lambda>ty.
     andThen
       (if is_authorization ty then
          andThen (getp payload ''authorization'') (\<lambda>auth.
          andThen (getp auth ''value'') (\<lambda>v.
          andThen (call_toString (numberToString env) v) (\<lambda>value.
          andThen (getp auth ''validAfter'') (\<lambda>va.
          andThen (call_toString (numberToString env) va) (\<lambda>validAfter.
          andThen (getp auth ''validBefore'') (\<lambda>vb.
          andThen (call_toString (numberToString env) vb) (\<lambda>validBefore.
            Inr (set_prop (spread payload) ''authorization''
              (JObj (set_prop (set_prop (set_prop (spread auth)
                 ''value'' (JStr value)) ''validAfter'' (JStr validAfter)) ''validBefore'' (JStr validBefore)))))))))))
        else Inr (spread payload)) (\<lambda>payload'.
     andThen (JSON_stringify (JObj (set_prop (spread (Some payment)) ''payload'' (JObj payload')))) (\<lambda>t.
       Inr (safeBase64Encode env t)))))"

definition starts_with_0x :: "jval option \<Rightarrow> js_error + bool" where
  "starts_with_0x sig = (case sig of
       Some (JStr s) \<Rightarrow> Inr (take 2 s = ''0x'')
     | _ \<Rightarrow> Inl (TypeError ''obj.payload.signature.startsWith is not a function''))"

definition validatePaymentPayload :: "jval \<Rightarrow> js_error + jval" where
  "validatePaymentPayload obj =
     (if \<not> truthy (Some obj) \<or> typeof (Some obj) \<noteq> ''object'' \<or>
         \<not> truthy (readp (Some obj) ''payload'') \<or> typeof (readp (Some obj) ''payload'') \<noteq> ''object'' \<or>
         \<not> truthy (readp (readp (Some obj) ''payload'') ''type'')
      then Inl (Error ''Invalid payment payload structure'')
      else
        let payload = readp (Some obj) ''payload'';
            auth = readp payload ''authorization''
        in if is_authorization (readp payload ''type'') then
             (if \<not> truthy auth \<or>
                 typeof (readp auth ''value'') \<noteq> ''bigint'' \<or>
                 typeof (readp auth ''validAfter'') \<noteq> ''bigint'' \<or>
                 typeof (readp auth ''validBefore'') \<noteq> ''bigint'' \<or>
                 typeof (readp auth ''nonce'') \<noteq> ''string'' \<or>
                 typeof (readp auth ''version'') \<noteq> ''string'' \<or>
                 \<not> truthy (readp payload ''signature'')
              then Inl (Error ''Invalid authorization payload values'')
              else andThen (starts_with_0x (readp payload ''signature'')) (\<lambda>ok.
                if \<not> ok then Inl (Error ''Invalid authorization payload values'') else Inr obj))
           else Inl (Error ''Invalid payload type''))"

definition decodePaymentPayload :: "'w platform \<Rightarrow> 'w \<Rightarrow> js_error + jval" where
  "decodePaymentPayload env payment =
     andThen (JSON_parse (safeBase64Decode env payment)) (\<lambda>parsed.
     andThen (getp (Some parsed) ''payload'') (\<lambda>payload.
     andThen (getp payload ''type'') (\<lambda>ty.
     andThen
       (if is_authorization ty then
          andThen (getp payload ''authorization'') (\<lambda>auth.
          andThen (getp auth ''value'') (\<lambda>v.
          andThen (js_BigInt (numberToString env) v) (\<lambda>value.
          andThen (getp auth ''validAfter'') (\<lambda>va.
          andThen (js_BigInt (numberToString env) va) (\<lambda>validAfter.
          andThen (getp auth ''validBefore'') (\<lambda>vb.
          andThen (js_BigInt (numberToString env) vb) (\<lambda>validBefore.
            Inr (set_prop (spread payload) ''authorization''
              (JObj (set_prop (set_prop (set_prop (spread auth)
                 ''value'' (JBigInt value)) ''validAfter'' (JBigInt validAfter)) ''validBefore'' (JBigInt validBefore)))))))))))
        else Inr (spread payload)) (\<lambda>payload'.
       validatePaymentPayload (JObj (set_prop (spread (Some parsed)) ''payload'' (JObj payload')))))))"

text \<open>
  A payload as a signer builds it, with a token amount beyond 64 bits, used to evaluate
  the codec.
\<close>

definition example_authorization :: "(string \<times> jval) list" where
  "example_authorization =
     [(''from'', JStr ''0x14276B249fC7c640Ee2406F28EF9f26E1069b5e8''),
      (''value'', JBigInt (2 ^ 200)),
      (''validAfter'', JBigInt 0),
      (''validBefore'', JBigInt 1893456000),
      (''nonce'', JStr ''0x01''),
      (''version'', JStr ''1'')]"

definition example_payload :: jval where
  "example_payload =
     JObj [(''x402Version'', JNum (Fin 1)),
           (''payload'', JObj [(''type'', JStr ''authorization''),
                               (''authorization'', JObj example_authorization),
                               (''signature'', JStr ''0xdead'')])]"

section \<open>The facilitator client (facilitator.js, verify)\<close>

text \<open>
  What \<^verbatim>\<open>verify\<close> does with the response that \<^verbatim>\<open>fetch\<close> resolved to (lines 114 to 132). The
  response is given by its status, its status text, and the outcome of \<^verbatim>\<open>await res.json()\<close>:
  the parsed body, or the error raised when the body is not JSON. The request that was
  sent has no part in it.
\<close>

record response =
  status :: int
  statusText :: string
  json :: "js_error + jval"

definition verify :: "response \<Rightarrow> js_error + jval" where
  "verify res =
     (if status res \<noteq> 200 then
        let errorMessage = JStr (''Failed to verify payment: '' @ statusText res);
            errorMessage' =
              (case json res of
                 Inl e \<Rightarrow> errorMessage
               | Inr errorData \<Rightarrow>
                   (case getp (Some errorData) ''error'' of
                      Inl e \<Rightarrow> errorMessage
                    | Inr None \<Rightarrow> errorMessage
                    | Inr (Some err) \<Rightarrow> if truthy (Some err) then err else errorMessage))
        in Inr (JObj [(''isValid'', JBool False), (''errorMessage'', errorMessage')])
      else json res)"

section \<open>Properties of the sanitizer\<close>

subsection \<open>The traversal only adds to \<open>seen\<close>, and the fuel suffices\<close>

lemma catch_Inr [simp]: "catch r = Some (Inr x) \<longleftrightarrow> r = Some (Inr x)"
  by (auto simp: catch_def split: option.splits sum.splits)

lemma catch_None [simp]: "catch r = None \<longleftrightarrow> r = None"
  by (auto simp: catch_def split: option.splits sum.splits)

lemma as_object_Inr [simp]:
  "as_object r = Some (Inr (y, s)) \<longleftrightarrow> (\<exists>ps. y = OObj ps \<and> r = Some (Inr (ps, s)))"
  by (auto simp: as_object_def split: option.splits sum.splits)

lemma as_object_None [simp]: "as_object r = None \<longleftrightarrow> r = None"
  by (auto simp: as_object_def split: option.splits sum.splits)

lemma seen_grows:
  "toJsonSafe_fuel n h seen v = Some (Inr (y, s')) \<Longrightarrow> seen \<subseteq> s'"
  "reduce_entries n h seen es result = Some (Inr (ps, s')) \<Longrightarrow> seen \<subseteq> s'"
  "map_items n h seen xs = Some (Inr (ys, s')) \<Longrightarrow> seen \<subseteq> s'"
proof (induct n h seen v and n h seen es result and n h seen xs
       arbitrary: y s' and ps s' and ys s'
       rule: toJsonSafe_fuel_reduce_entries_map_items.induct)
  case (1 n h seen p)
  then show ?case by simp
next
  case (2 h seen a)
  then show ?case by (simp split: if_splits)
next
  case (3 n h seen a)
  show ?case
  proof (cases "a \<in> seen \<or> length h \<le> a")
    case True
    with "3.prems" show ?thesis by (auto split: if_splits)
  next
    case False
    then have nin: "a \<notin> seen" and inb: "\<not> length h \<le> a" by auto
    show ?thesis
    proof (cases "h ! a")
      case (DateObj d)
      with nin inb "3.prems" show ?thesis by (auto split: sum.splits)
    next
      case (SetObj xs)
      with nin inb "3.prems" obtain ps where
        "reduce_entries n h (insert a seen) (index_entries xs) [] = Some (Inr (ps, s'))" by auto
      from "3.hyps"(1)[OF nin inb SetObj this] show ?thesis by blast
    next
      case (MapObj kvs)
      with nin inb "3.prems" obtain ps where
        "reduce_entries n h (insert a seen) (fromEntries kvs) [] = Some (Inr (ps, s'))" by auto
      from "3.hyps"(2)[OF nin inb MapObj this] show ?thesis by blast
    next
      case (ArrayObj xs)
      with nin inb "3.prems" obtain ps where
        "reduce_entries n h (insert a seen) (index_entries xs) [] = Some (Inr (ps, s'))" by auto
      from "3.hyps"(3)[OF nin inb ArrayObj this] show ?thesis by blast
    next
      case (PlainObj kvs)
      with nin inb "3.prems" obtain ps where
        "reduce_entries n h (insert a seen) kvs [] = Some (Inr (ps, s'))" by auto
      from "3.hyps"(4)[OF nin inb PlainObj this] show ?thesis by blast
    qed
  qed
next
  case (4 n h seen result)
  then show ?case by simp
next
  case (5 n h seen key p es result)
  then show ?case by (cases p) auto
next
  case (6 n h seen key a es result)
  show ?case
  proof (cases "length h \<le> a")
    case True
    with "6.prems" show ?thesis by simp
  next
    case inb: False
    show ?thesis
    proof (cases "h ! a")
      case (DateObj d)
      with inb "6.prems" obtain t where t: "toISOString d = Inr t"
        and r: "reduce_entries n h seen es (assign result key (Raw (Prim (VStr t)))) = Some (Inr (ps, s'))"
        by (auto split: sum.splits)
      from "6.hyps"(1)[OF inb DateObj t r] show ?thesis .
    next
      case (SetObj xs)
      with inb "6.prems"
      have r: "reduce_entries n h seen es (assign result key (OArr (map Raw xs))) = Some (Inr (ps, s'))"
        by simp
      from "6.hyps"(2)[OF inb SetObj r] show ?thesis .
    next
      case (MapObj kvs)
      with inb "6.prems"
      have r: "reduce_entries n h seen es
          (assign result key (OObj (fromEntries (map (\<lambda>(k, v). (k, Raw v)) kvs)))) = Some (Inr (ps, s'))"
        by simp
      from "6.hyps"(3)[OF inb MapObj r] show ?thesis .
    next
      case (ArrayObj xs)
      with inb "6.prems" obtain ys s1 where m: "map_items n h seen xs = Some (Inr (ys, s1))"
        and r: "reduce_entries n h s1 es (assign result key (OArr ys)) = Some (Inr (ps, s'))"
        by (auto split: option.splits sum.splits)
      from "6.hyps"(4)[OF inb ArrayObj m] have "seen \<subseteq> s1" .
      moreover from "6.hyps"(5)[OF inb ArrayObj m refl refl r] have "s1 \<subseteq> s'" .
      ultimately show ?thesis by blast
    next
      case (PlainObj kvs)
      with inb "6.prems" obtain y s1 where m: "toJsonSafe_fuel n h seen (Ref a) = Some (Inr (y, s1))"
        and r: "reduce_entries n h s1 es (assign result key y) = Some (Inr (ps, s'))"
        by (auto split: option.splits sum.splits)
      from "6.hyps"(6)[OF inb PlainObj m] have "seen \<subseteq> s1" .
      moreover from "6.hyps"(7)[OF inb PlainObj m refl refl r] have "s1 \<subseteq> s'" .
      ultimately show ?thesis by blast
    qed
  qed
next
  case (7 n h seen)
  then show ?case by simp
next
  case (8 n h seen p xs)
  then show ?case by (auto split: option.splits sum.splits)
next
  case (9 n h seen a xs)
  from "9.prems" obtain y s1 ys' where m: "toJsonSafe_fuel n h seen (Ref a) = Some (Inr (y, s1))"
    and r: "map_items n h s1 xs = Some (Inr (ys', s'))"
    by (auto split: option.splits sum.splits)
  from "9.hyps"(1)[OF m] have "seen \<subseteq> s1" .
  moreover from "9.hyps"(2)[OF m refl refl r] have "s1 \<subseteq> s'" .
  ultimately show ?case by blast
qed


lemma finite_unseen [simp]: "finite (unseen h seen)"
  by (simp add: unseen_def)

lemma unseen_mono: "seen \<subseteq> s' \<Longrightarrow> card (unseen h s') \<le> card (unseen h seen)"
  by (rule card_mono) (auto simp: unseen_def)

lemma unseen_insert:
  assumes "a \<notin> seen" "a < length h"
  shows "card (unseen h (insert a seen)) < card (unseen h seen)"
proof (rule psubset_card_mono)
  show "finite (unseen h seen)" by simp
  show "unseen h (insert a seen) \<subset> unseen h seen"
    using assms by (auto simp: unseen_def)
qed

lemma fuel_suffices:
  "card (unseen h seen) < n \<Longrightarrow> toJsonSafe_fuel n h seen v \<noteq> None"
  "card (unseen h seen) < n \<Longrightarrow> reduce_entries n h seen es result \<noteq> None"
  "card (unseen h seen) < n \<Longrightarrow> map_items n h seen xs \<noteq> None"
proof (induct n h seen v and n h seen es result and n h seen xs
       rule: toJsonSafe_fuel_reduce_entries_map_items.induct)
  case (1 n h seen p)
  show ?case by simp
next
  case (2 h seen a)
  then show ?case by simp
next
  case (3 n h seen a)
  show ?case
  proof (cases "a \<in> seen \<or> length h \<le> a")
    case True
    then show ?thesis by auto
  next
    case False
    then have nin: "a \<notin> seen" and inb: "\<not> length h \<le> a" by auto
    from inb have "a < length h" by simp
    from unseen_insert[OF nin this] "3.prems" have c: "card (unseen h (insert a seen)) < n" by simp
    show ?thesis
    proof (cases "h ! a")
      case (DateObj d)
      with nin inb show ?thesis by (simp split: sum.splits)
    next
      case (SetObj xs)
      from "3.hyps"(1)[OF nin inb SetObj c] nin inb SetObj show ?thesis by simp
    next
      case (MapObj kvs)
      from "3.hyps"(2)[OF nin inb MapObj c] nin inb MapObj show ?thesis by simp
    next
      case (ArrayObj xs)
      from "3.hyps"(3)[OF nin inb ArrayObj c] nin inb ArrayObj show ?thesis by simp
    next
      case (PlainObj kvs)
      from "3.hyps"(4)[OF nin inb PlainObj c] nin inb PlainObj show ?thesis by simp
    qed
  qed
next
  case (4 n h seen result)
  show ?case by simp
next
  case (5 n h seen key p es result)
  then show ?case by (cases p) auto
next
  case (6 n h seen key a es result)
  note c = "6.prems"
  show ?case
  proof (cases "length h \<le> a")
    case True
    then show ?thesis by simp
  next
    case inb: False
    show ?thesis
    proof (cases "h ! a")
      case (DateObj d)
      show ?thesis
      proof (cases "toISOString d")
        case (Inl e)
        with inb DateObj show ?thesis by simp
      next
        case (Inr t)
        from "6.hyps"(1)[OF inb DateObj Inr c] inb DateObj Inr show ?thesis by simp
      qed
    next
      case (SetObj xs)
      from "6.hyps"(2)[OF inb SetObj c] inb SetObj show ?thesis by simp
    next
      case (MapObj kvs)
      from "6.hyps"(3)[OF inb MapObj c] inb MapObj show ?thesis by simp
    next
      case (ArrayObj xs)
      from "6.hyps"(4)[OF inb ArrayObj c] obtain r where m: "map_items n h seen xs = Some r" by auto
      show ?thesis
      proof (cases r)
        case (Inl e)
        with m inb ArrayObj show ?thesis by simp
      next
        case (Inr b)
        obtain ys s1 where b: "b = (ys, s1)" by (cases b)
        from m Inr b have "seen \<subseteq> s1" by (auto dest: seen_grows(3))
        from unseen_mono[OF this, of h] c have c1: "card (unseen h s1) < n" by simp
        from "6.hyps"(5)[OF inb ArrayObj m Inr b[symmetric] c1] m Inr b inb ArrayObj
        show ?thesis by simp
      qed
    next
      case (PlainObj kvs)
      from "6.hyps"(6)[OF inb PlainObj c] obtain r where m: "toJsonSafe_fuel n h seen (Ref a) = Some r" by auto
      show ?thesis
      proof (cases r)
        case (Inl e)
        with m inb PlainObj show ?thesis by simp
      next
        case (Inr b)
        obtain y s1 where b: "b = (y, s1)" by (cases b)
        from m Inr b have "seen \<subseteq> s1" by (auto dest: seen_grows(1))
        from unseen_mono[OF this, of h] c have c1: "card (unseen h s1) < n" by simp
        from "6.hyps"(7)[OF inb PlainObj m Inr b[symmetric] c1] m Inr b inb PlainObj
        show ?thesis by simp
      qed
    qed
  qed
next
  case (7 n h seen)
  show ?case by simp
next
  case (8 n h seen p xs)
  then show ?case by (auto split: option.splits sum.splits)
next
  case (9 n h seen a xs)
  note c = "9.prems"
  from "9.hyps"(1)[OF c] obtain r where m: "toJsonSafe_fuel n h seen (Ref a) = Some r" by auto
  show ?case
  proof (cases r)
    case (Inl e)
    with m show ?thesis by simp
  next
    case (Inr b)
    obtain y s1 where b: "b = (y, s1)" by (cases b)
    from m Inr b have "seen \<subseteq> s1" by (auto dest: seen_grows(1))
    from unseen_mono[OF this, of h] c have c1: "card (unseen h s1) < n" by simp
    from "9.hyps"(2)[OF m Inr b[symmetric] c1] m Inr b
    show ?thesis by (auto split: option.splits sum.splits)
  qed
qed

lemma toJsonSafe_total: "\<exists>r. toJsonSafe h data = Some r"
proof -
  have "card (unseen h {}) < Suc (length h)" by (simp add: unseen_def)
  from fuel_suffices(1)[OF this] show ?thesis by (auto simp: toJsonSafe_def)
qed

text \<open>Fuel beyond what a traversal needs does not change its result.\<close>

lemma catch_Some: "catch x = Some r \<Longrightarrow> \<exists>r0. x = Some r0"
  by (cases x) (simp_all add: catch_def)

lemma as_object_Some: "as_object x = Some r \<Longrightarrow> \<exists>r0. x = Some r0"
  by (cases x) (simp_all add: as_object_def)

lemma more_fuel:
  "toJsonSafe_fuel n h seen v = Some r \<Longrightarrow> n \<le> m \<Longrightarrow> toJsonSafe_fuel m h seen v = Some r"
  "reduce_entries n h seen es result = Some r' \<Longrightarrow> n \<le> m \<Longrightarrow> reduce_entries m h seen es result = Some r'"
  "map_items n h seen xs = Some r'' \<Longrightarrow> n \<le> m \<Longrightarrow> map_items m h seen xs = Some r''"
proof (induct n h seen v and n h seen es result and n h seen xs
       arbitrary: r m and r' m and r'' m
       rule: toJsonSafe_fuel_reduce_entries_map_items.induct)
  case (1 n h seen p)
  then show ?case by simp
next
  case (2 h seen a)
  then show ?case by (cases m) (auto split: if_splits)
next
  case (3 n h seen a)
  from "3.prems"(2) obtain m' where m: "m = Suc m'" and le: "n \<le> m'" by (cases m) auto
  show ?case
  proof (cases "a \<in> seen \<or> length h \<le> a")
    case True
    with "3.prems" m show ?thesis by auto
  next
    case False
    then have nin: "a \<notin> seen" and inb: "\<not> length h \<le> a" by auto
    show ?thesis
    proof (cases "h ! a")
      case (DateObj d)
      with nin inb "3.prems" m show ?thesis by simp
    next
      case (SetObj xs)
      with nin inb "3.prems"(1) obtain r0 where
        r0: "reduce_entries n h (insert a seen) (index_entries xs) [] = Some r0"
        by (auto dest!: catch_Some as_object_Some)
      from "3.hyps"(1)[OF nin inb SetObj r0 le] r0 "3.prems"(1) nin inb SetObj m
      show ?thesis by simp
    next
      case (MapObj kvs)
      with nin inb "3.prems"(1) obtain r0 where
        r0: "reduce_entries n h (insert a seen) (fromEntries kvs) [] = Some r0"
        by (auto dest!: catch_Some as_object_Some)
      from "3.hyps"(2)[OF nin inb MapObj r0 le] r0 "3.prems"(1) nin inb MapObj m
      show ?thesis by simp
    next
      case (ArrayObj xs)
      with nin inb "3.prems"(1) obtain r0 where
        r0: "reduce_entries n h (insert a seen) (index_entries xs) [] = Some r0"
        by (auto dest!: catch_Some as_object_Some)
      from "3.hyps"(3)[OF nin inb ArrayObj r0 le] r0 "3.prems"(1) nin inb ArrayObj m
      show ?thesis by simp
    next
      case (PlainObj kvs)
      with nin inb "3.prems"(1) obtain r0 where
        r0: "reduce_entries n h (insert a seen) kvs [] = Some r0"
        by (auto dest!: catch_Some as_object_Some)
      from "3.hyps"(4)[OF nin inb PlainObj r0 le] r0 "3.prems"(1) nin inb PlainObj m
      show ?thesis by simp
    qed
  qed
next
  case (4 n h seen result)
  then show ?case by simp
next
  case (5 n h seen key p es result)
  show ?case
  proof (cases p)
    case VUndefined
    with "5.prems"(1) have "reduce_entries n h seen es (result) = Some r'" by simp
    from "5.hyps"(1)[OF VUndefined this "5.prems"(2)] VUndefined show ?thesis by simp
  next
    case VNull
    with "5.prems"(1) have "reduce_entries n h seen es (result) = Some r'" by simp
    from "5.hyps"(2)[OF VNull this "5.prems"(2)] VNull show ?thesis by simp
  next
    case (VBool b)
    with "5.prems"(1) have "reduce_entries n h seen es (assign result key (Raw (Prim p))) = Some r'" by simp
    from "5.hyps"(3)[OF VBool this "5.prems"(2)] VBool show ?thesis by simp
  next
    case (VNum x)
    with "5.prems"(1) have "reduce_entries n h seen es (assign result key (Raw (Prim p))) = Some r'" by simp
    from "5.hyps"(4)[OF VNum this "5.prems"(2)] VNum show ?thesis by simp
  next
    case (VStr t)
    with "5.prems"(1) have "reduce_entries n h seen es (assign result key (Raw (Prim p))) = Some r'" by simp
    from "5.hyps"(5)[OF VStr this "5.prems"(2)] VStr show ?thesis by simp
  next
    case (VBigInt i)
    with "5.prems"(1) have "reduce_entries n h seen es (assign result key (Raw (Prim (VStr (bigint_toString i))))) = Some r'" by simp
    from "5.hyps"(6)[OF VBigInt this "5.prems"(2)] VBigInt show ?thesis by simp
  next
    case (VSymbol d)
    with "5.prems"(1) have "reduce_entries n h seen es (assign result key (Raw (Prim (VStr (symbol_toString d))))) = Some r'" by simp
    from "5.hyps"(7)[OF VSymbol this "5.prems"(2)] VSymbol show ?thesis by simp
  next
    case VFunction
    with "5.prems"(1) have "reduce_entries n h seen es (assign result key (Raw (Prim (VStr ''[Function]'')))) = Some r'" by simp
    from "5.hyps"(8)[OF VFunction this "5.prems"(2)] VFunction show ?thesis by simp
  qed
next
  case (6 n h seen key a es result)
  note le = "6.prems"(2)
  show ?case
  proof (cases "length h \<le> a")
    case True
    with "6.prems" show ?thesis by simp
  next
    case inb: False
    show ?thesis
    proof (cases "h ! a")
      case (DateObj d)
      show ?thesis
      proof (cases "toISOString d")
        case (Inl e)
        with inb DateObj "6.prems" show ?thesis by simp
      next
        case (Inr t)
        with inb DateObj "6.prems"(1)
        have "reduce_entries n h seen es (assign result key (Raw (Prim (VStr t)))) = Some r'" by simp
        from "6.hyps"(1)[OF inb DateObj Inr this le] inb DateObj Inr show ?thesis by simp
      qed
    next
      case (SetObj xs)
      with inb "6.prems"(1)
      have "reduce_entries n h seen es (assign result key (OArr (map Raw xs))) = Some r'" by simp
      from "6.hyps"(2)[OF inb SetObj this le] inb SetObj show ?thesis by simp
    next
      case (MapObj kvs)
      with inb "6.prems"(1)
      have "reduce_entries n h seen es
          (assign result key (OObj (fromEntries (map (\<lambda>(k, v). (k, Raw v)) kvs)))) = Some r'" by simp
      from "6.hyps"(3)[OF inb MapObj this le] inb MapObj show ?thesis by simp
    next
      case (ArrayObj xs)
      with inb "6.prems"(1) obtain x where x: "map_items n h seen xs = Some x"
        by (auto split: option.splits)
      from "6.hyps"(4)[OF inb ArrayObj x le] have xm: "map_items m h seen xs = Some x" .
      show ?thesis
      proof (cases x)
        case (Inl e)
        with x xm inb ArrayObj "6.prems"(1) show ?thesis by simp
      next
        case (Inr b)
        obtain ys s1 where b: "b = (ys, s1)" by (cases b)
        from x Inr b inb ArrayObj "6.prems"(1)
        have "reduce_entries n h s1 es (assign result key (OArr ys)) = Some r'" by simp
        from "6.hyps"(5)[OF inb ArrayObj x Inr b[symmetric] this le] xm Inr b inb ArrayObj
        show ?thesis by simp
      qed
    next
      case (PlainObj kvs)
      with inb "6.prems"(1) obtain x where x: "toJsonSafe_fuel n h seen (Ref a) = Some x"
        by (auto split: option.splits)
      from "6.hyps"(6)[OF inb PlainObj x le] have xm: "toJsonSafe_fuel m h seen (Ref a) = Some x" .
      show ?thesis
      proof (cases x)
        case (Inl e)
        with x xm inb PlainObj "6.prems"(1) show ?thesis by simp
      next
        case (Inr b)
        obtain y s1 where b: "b = (y, s1)" by (cases b)
        from x Inr b inb PlainObj "6.prems"(1)
        have "reduce_entries n h s1 es (assign result key y) = Some r'" by simp
        from "6.hyps"(7)[OF inb PlainObj x Inr b[symmetric] this le] xm Inr b inb PlainObj
        show ?thesis by simp
      qed
    qed
  qed
next
  case (7 n h seen)
  then show ?case by simp
next
  case (8 n h seen p xs)
  from "8.prems"(1) obtain x where x: "map_items n h seen xs = Some x" by (auto split: option.splits)
  from "8.hyps"[OF x "8.prems"(2)] x "8.prems"(1) show ?case by simp
next
  case (9 n h seen a xs)
  note le = "9.prems"(2)
  from "9.prems"(1) obtain x where x: "toJsonSafe_fuel n h seen (Ref a) = Some x"
    by (auto split: option.splits)
  from "9.hyps"(1)[OF x le] have xm: "toJsonSafe_fuel m h seen (Ref a) = Some x" .
  show ?case
  proof (cases x)
    case (Inl e)
    with x xm "9.prems"(1) show ?thesis by simp
  next
    case (Inr b)
    obtain y s1 where b: "b = (y, s1)" by (cases b)
    from x Inr b "9.prems"(1) obtain x2 where x2: "map_items n h s1 xs = Some x2"
      by (auto split: option.splits)
    from "9.hyps"(2)[OF x Inr b[symmetric] x2 le] x2 x xm Inr b "9.prems"(1)
    show ?thesis by simp
  qed
qed

lemma toJsonSafe_any_fuel:
  assumes "length h < n"
  shows "map_option (map_sum id fst) (toJsonSafe_fuel n h {} data) = toJsonSafe h data"
proof -
  have "card (unseen h {}) < Suc (length h)" by (simp add: unseen_def)
  from fuel_suffices(1)[OF this] obtain r where r: "toJsonSafe_fuel (Suc (length h)) h {} data = Some r"
    by auto
  from more_fuel(1)[OF r, of n] assms have "toJsonSafe_fuel n h {} data = Some r" by simp
  with r show ?thesis by (simp add: toJsonSafe_def)
qed

subsection \<open>The shape of the result\<close>

lemma field_result_mono: "seen \<subseteq> s1 \<Longrightarrow> field_result h s1 v y \<Longrightarrow> field_result h seen v y"
  by (auto simp: field_result_def split: jsval.splits prim.splits hobj.splits if_splits)

lemma toJsonSafe_fuel_seen:
  "a \<in> seen \<Longrightarrow> toJsonSafe_fuel n h seen (Ref a) = Some (Inr (circular_marker, seen))"
  by (cases n) simp_all

lemma reduce_entries_shape:
  "reduce_entries n h seen es result = Some (Inr (ps, s')) \<Longrightarrow>
     \<exists>qs. ps = result @ qs \<and>
          list_all2 (\<lambda>(k, v) (k', y). k' = k \<and> field_result h seen v y)
            (filter (\<lambda>(k, v). \<not> dropped v \<and> k \<noteq> ''__proto__'') es) qs"
proof (induction es arbitrary: seen result)
  case Nil
  then show ?case by simp
next
  case (Cons e es)
  let ?stored = "\<lambda>(k, v). \<not> dropped v \<and> k \<noteq> ''__proto__''"
  obtain key v where e: "e = (key, v)" by (cases e)
  show ?case
  proof (cases "dropped v")
    case True
    with Cons.prems e have "reduce_entries n h seen es result = Some (Inr (ps, s'))"
      by (auto simp: dropped_def)
    from Cons.IH[OF this] True e show ?thesis by simp
  next
    case nd: False
    have "\<exists>y s1. reduce_entries n h s1 es (assign result key y) = Some (Inr (ps, s'))
            \<and> field_result h seen v y \<and> seen \<subseteq> s1"
    proof (cases v)
      case (Prim p)
      with nd Cons.prems e show ?thesis
        by (cases p) (auto simp: dropped_def field_result_def)
    next
      case (Ref b)
      from Cons.prems e Ref have inb: "\<not> length h \<le> b" by (auto split: if_splits)
      show ?thesis
      proof (cases "h ! b")
        case (DateObj d)
        with Cons.prems e Ref inb show ?thesis
          by (cases d) (auto simp: field_result_def toISOString_def)
      next
        case (SetObj xs)
        with Cons.prems e Ref inb show ?thesis
          by (auto simp: field_result_def)
      next
        case (MapObj kvs)
        with Cons.prems e Ref inb show ?thesis
          by (auto simp: field_result_def)
      next
        case (ArrayObj xs)
        with Cons.prems e Ref inb obtain ys s1 where m: "map_items n h seen xs = Some (Inr (ys, s1))"
          and r: "reduce_entries n h s1 es (assign result key (OArr ys)) = Some (Inr (ps, s'))"
          by (auto split: option.splits sum.splits)
        have "field_result h seen v (OArr ys)"
          using ArrayObj Ref by (simp add: field_result_def)
        with seen_grows(3)[OF m] r show ?thesis by blast
      next
        case (PlainObj kvs)
        with Cons.prems e Ref inb obtain y s1 where m: "toJsonSafe_fuel n h seen (Ref b) = Some (Inr (y, s1))"
          and r: "reduce_entries n h s1 es (assign result key y) = Some (Inr (ps, s'))"
          by (auto split: option.splits sum.splits)
        have "field_result h seen v y"
          using m PlainObj Ref by (auto simp: field_result_def toJsonSafe_fuel_seen)
        with seen_grows(1)[OF m] r show ?thesis by blast
      qed
    qed
    then obtain y s1 where r: "reduce_entries n h s1 es (assign result key y) = Some (Inr (ps, s'))"
      and y: "field_result h seen v y" and sub: "seen \<subseteq> s1" by blast
    from Cons.IH[OF r] obtain qs where ps: "ps = assign result key y @ qs"
      and qs: "list_all2 (\<lambda>(k, v) (k', y). k' = k \<and> field_result h s1 v y) (filter ?stored es) qs"
      by blast
    from qs have qs': "list_all2 (\<lambda>(k, v) (k', y). k' = k \<and> field_result h seen v y) (filter ?stored es) qs"
      by (rule list_all2_mono) (auto intro: field_result_mono[OF sub])
    show ?thesis
    proof (cases "key = ''__proto__''")
      case True
      with ps qs' e show ?thesis by (simp add: assign_def)
    next
      case False
      with ps qs' y nd e show ?thesis by (simp add: assign_def)
    qed
  qed
qed

lemma list_all2_keys:
  "list_all2 (\<lambda>(k, v) (k', y). k' = k \<and> R v y) xs qs \<Longrightarrow> map fst qs = map fst xs"
  by (induction rule: list_all2_induct) auto

lemma list_all2_lookup:
  "list_all2 (\<lambda>(k, v) (k', y). k' = k \<and> R v y) xs qs \<Longrightarrow> distinct (map fst xs) \<Longrightarrow>
     (k, v) \<in> set xs \<Longrightarrow> \<exists>y. map_of qs k = Some y \<and> R v y"
proof (induction rule: list_all2_induct)
  case Nil
  then show ?case by simp
next
  case (Cons x xs q qs)
  then show ?case by (cases x; cases q) (auto simp: image_iff)
qed

lemma toJsonSafe_Inr:
  "toJsonSafe h data = Some (Inr out) \<longleftrightarrow>
     (\<exists>s'. toJsonSafe_fuel (Suc (length h)) h {} data = Some (Inr (out, s')))"
proof (cases "toJsonSafe_fuel (Suc (length h)) h {} data")
  case None
  then show ?thesis by (simp add: toJsonSafe_def catch_def as_object_def assign_def)
next
  case (Some r)
  then show ?thesis by (cases r) (auto simp: toJsonSafe_def)
qed

lemma toJsonSafe_walk:
  assumes "a < length h" and "toJsonSafe h (Ref a) = Some (Inr out)"
    and "h ! a = PlainObj es \<or> h ! a = ArrayObj xs \<and> es = index_entries xs
         \<or> h ! a = SetObj xs \<and> es = index_entries xs"
  shows "\<exists>ps s'. out = OObj ps \<and> reduce_entries (length h) h {a} es [] = Some (Inr (ps, s'))"
  using assms by (auto simp: toJsonSafe_Inr)

lemma toJsonSafe_fields:
  assumes "a < length h" and "toJsonSafe h (Ref a) = Some (Inr out)"
    and "h ! a = PlainObj es \<or> h ! a = ArrayObj xs \<and> es = index_entries xs
         \<or> h ! a = SetObj xs \<and> es = index_entries xs"
  shows "\<exists>ps. out = OObj ps \<and>
     list_all2 (\<lambda>(k, v) (k', y). k' = k \<and> field_result h {a} v y)
       (filter (\<lambda>(k, v). \<not> dropped v \<and> k \<noteq> ''__proto__'') es) ps"
proof -
  from toJsonSafe_walk[OF assms] obtain ps s' where out: "out = OObj ps"
    and r: "reduce_entries (length h) h {a} es [] = Some (Inr (ps, s'))" by blast
  from reduce_entries_shape[OF r] out show ?thesis by simp
qed

subsection \<open>Decimal numerals\<close>

lemma digit_char_props:
  assumes "d < 10"
  shows "digit_char d \<in> set ''0123456789''" and "radix_val (digit_char d) = d"
proof -
  from assms have "d \<in> {0, 1, 2, 3, 4, 5, 6, 7, 8, 9}" by auto
  then have d: "d = 0 \<or> d = 1 \<or> d = 2 \<or> d = 3 \<or> d = 4 \<or> d = 5 \<or> d = 6 \<or> d = 7 \<or> d = 8 \<or> d = 9"
    by simp
  from d show "digit_char d \<in> set ''0123456789''"
    by (elim disjE) (simp_all add: digit_char_def)
  from d show "radix_val (digit_char d) = d"
    by (elim disjE) (simp_all add: digit_char_def radix_val_def index_in_def)
qed

lemma show_nat_digits: "set (show_nat n) \<subseteq> set ''0123456789''"
proof (induction n rule: show_nat.induct)
  case (1 n)
  show ?case
  proof (cases "n < 10")
    case True
    then show ?thesis using digit_char_props(1)[of n] by (subst show_nat.simps) simp
  next
    case False
    have "n mod 10 < 10" by simp
    from digit_char_props(1)[OF this] 1[OF False] False show ?thesis
      by (subst show_nat.simps) simp
  qed
qed

lemma show_nat_nonempty: "show_nat n \<noteq> []"
  by (subst show_nat.simps) simp

lemma show_nat_value: "foldl (\<lambda>acc c. acc * 10 + radix_val c) 0 (show_nat n) = n"
proof (induction n rule: show_nat.induct)
  case (1 n)
  show ?case
  proof (cases "n < 10")
    case True
    then show ?thesis using digit_char_props(2)[of n] by (subst show_nat.simps) simp
  next
    case False
    have "n mod 10 < 10" by simp
    from digit_char_props(2)[OF this] 1[OF False] False show ?thesis
      by (subst show_nat.simps) simp
  qed
qed

lemma index_key_not_proto:
  assumes "(k, v) \<in> set (index_entries xs)"
  shows "k \<noteq> ''__proto__''"
proof
  assume p: "k = ''__proto__''"
  from assms have "k \<in> set (map show_nat [0..<length xs])"
    unfolding index_entries_def by (rule set_zip_leftD)
  then obtain i where "k = show_nat i" by auto
  with show_nat_digits[of i] have "set k \<subseteq> set ''0123456789''" by simp
  with p show False by simp
qed

subsection \<open>Claims about the sanitizer\<close>




text \<open>
  C7: toJsonSafe returns, with a value or an error, on every heap and every input, cyclic
  graphs included; and when an object \<open>x\<close> with \<^verbatim>\<open>x.self = x\<close> is sanitized, the \<^verbatim>\<open>self\<close> field
  of the result is the marker \<^verbatim>\<open>{"[Circular]": true}\<close>.
\<close>

theorem toJsonSafe_terminates:
  "(\<exists>r. toJsonSafe h data = Some r) \<and>
   (a < length h \<and> h ! a = PlainObj kvs \<and> distinct (map fst kvs) \<and> (''self'', Ref a) \<in> set kvs \<and>
      toJsonSafe h (Ref a) = Some (Inr out)
    \<longrightarrow> (\<exists>ps. out = OObj ps \<and> map_of ps ''self'' = Some circular_marker))"
proof (intro conjI impI)
  show "\<exists>r. toJsonSafe h data = Some r" by (rule toJsonSafe_total)
next
  assume asm: "a < length h \<and> h ! a = PlainObj kvs \<and> distinct (map fst kvs) \<and>
    (''self'', Ref a) \<in> set kvs \<and> toJsonSafe h (Ref a) = Some (Inr out)"
  let ?kept = "filter (\<lambda>(k, v). \<not> dropped v \<and> k \<noteq> ''__proto__'') kvs"
  from asm toJsonSafe_fields[of a h out kvs] obtain ps where out: "out = OObj ps"
    and all: "list_all2 (\<lambda>(k, v) (k', y). k' = k \<and> field_result h {a} v y) ?kept ps"
    by blast
  have dist: "distinct (map fst ?kept)" using asm by (simp add: distinct_map_filter)
  have "(''self'', Ref a) \<in> set ?kept" using asm by (simp add: dropped_def)
  from list_all2_lookup[OF all dist this] obtain y where "map_of ps ''self'' = Some y"
    and "field_result h {a} (Ref a) y" by blast
  with asm have "map_of ps ''self'' = Some circular_marker" by (simp add: field_result_def)
  with out show "\<exists>ps. out = OObj ps \<and> map_of ps ''self'' = Some circular_marker" by blast
qed

theorem toJsonSafe_terminates_witness:
  "toJsonSafe [PlainObj [(''self'', Ref 0)]] (Ref 0) = Some (Inr (OObj [(''self'', circular_marker)]))
   \<and> map_of [(''self'', circular_marker)] ''self'' = Some circular_marker"
proof -
  let ?h = "[PlainObj [(''self'', Ref 0)]]"
  have ev: "toJsonSafe ?h (Ref 0) = Some (Inr (OObj [(''self'', circular_marker)]))"
    by (simp add: toJsonSafe_def catch_def as_object_def assign_def)
  have "0 < length ?h \<and> ?h ! 0 = PlainObj [(''self'', Ref 0)] \<and> distinct (map fst [(''self'', Ref 0)])
    \<and> (''self'', Ref 0) \<in> set [(''self'', Ref 0)]" by simp
  with ev toJsonSafe_terminates[of ?h "Ref 0" 0 "[(''self'', Ref 0)]" "OObj [(''self'', circular_marker)]"]
  have "map_of [(''self'', circular_marker)] ''self'' = Some circular_marker" by blast
  with ev show ?thesis by blast
qed

text \<open>
  C10 as stated fails. The keys are not the indices of all the elements: \<^verbatim>\<open>[1, null, 3]\<close>
  gives \<^verbatim>\<open>{"0": 1, "2": 3}\<close>. And an array keeps its shape elsewhere than as the value of a
  field: in \<^verbatim>\<open>{s: new Set([[1, 2]])}\<close> the inner array is an element of the array stored for
  \<^verbatim>\<open>s\<close>, and it is the input array itself.
\<close>

theorem toJsonSafe_top_level_array_counterexample:
  "toJsonSafe [ArrayObj [Prim (VNum (Fin 1)), Prim VNull, Prim (VNum (Fin 3))]] (Ref 0)
     = Some (Inr (OObj [(''0'', Raw (Prim (VNum (Fin 1)))), (''2'', Raw (Prim (VNum (Fin 3))))]))
   \<and> toJsonSafe [PlainObj [(''s'', Ref 1)], SetObj [Ref 2],
                  ArrayObj [Prim (VNum (Fin 1)), Prim (VNum (Fin 2))]] (Ref 0)
     = Some (Inr (OObj [(''s'', OArr [Raw (Ref 2)])]))"
  by (simp add: toJsonSafe_def index_entries_def show_nat.simps digit_char_def catch_def
      as_object_def assign_def)

text \<open>
  C10, amended: when the input of toJsonSafe is an array (or a set, which is converted to
  an array and sanitized again), the result is not an array but an object whose keys are
  the decimal indices of the elements that are neither \<^verbatim>\<open>undefined\<close> nor \<^verbatim>\<open>null\<close>; an array that
  is the value of a field of an object, under a key other than \<^verbatim>\<open>__proto__\<close>, is stored as
  an array.
\<close>

theorem toJsonSafe_top_level_array:
  "(a < length h \<and> (h ! a = ArrayObj xs \<or> h ! a = SetObj xs) \<and> toJsonSafe h (Ref a) = Some (Inr out)
    \<longrightarrow> (\<exists>ps. out = OObj ps \<and>
          map fst ps = map fst (filter (\<lambda>(k, v). v \<noteq> Prim VUndefined \<and> v \<noteq> Prim VNull) (index_entries xs))))
   \<and> (a < length h \<and> h ! a = PlainObj kvs \<and> distinct (map fst kvs) \<and> (k, Ref b) \<in> set kvs \<and>
      k \<noteq> ''__proto__'' \<and> h ! b = ArrayObj xs \<and> toJsonSafe h (Ref a) = Some (Inr out)
    \<longrightarrow> (\<exists>ps ys. out = OObj ps \<and> map_of ps k = Some (OArr ys)))"
proof (intro conjI impI)
  assume asm: "a < length h \<and> (h ! a = ArrayObj xs \<or> h ! a = SetObj xs) \<and>
    toJsonSafe h (Ref a) = Some (Inr out)"
  let ?kept = "filter (\<lambda>(k, v). \<not> dropped v \<and> k \<noteq> ''__proto__'') (index_entries xs)"
  from asm toJsonSafe_fields[of a h out "index_entries xs" xs] obtain ps where out: "out = OObj ps"
    and all: "list_all2 (\<lambda>(k, v) (k', y). k' = k \<and> field_result h {a} v y) ?kept ps"
    by blast
  have "?kept = filter (\<lambda>(k, v). v \<noteq> Prim VUndefined \<and> v \<noteq> Prim VNull) (index_entries xs)"
    by (rule filter_cong) (auto simp: dropped_def dest: index_key_not_proto)
  moreover have "map fst ps = map fst ?kept" by (rule list_all2_keys[OF all])
  ultimately have "map fst ps = map fst (filter (\<lambda>(k, v). v \<noteq> Prim VUndefined \<and> v \<noteq> Prim VNull) (index_entries xs))"
    by simp
  with out show "\<exists>ps. out = OObj ps \<and>
    map fst ps = map fst (filter (\<lambda>(k, v). v \<noteq> Prim VUndefined \<and> v \<noteq> Prim VNull) (index_entries xs))"
    by blast
next
  assume asm: "a < length h \<and> h ! a = PlainObj kvs \<and> distinct (map fst kvs) \<and> (k, Ref b) \<in> set kvs \<and>
    k \<noteq> ''__proto__'' \<and> h ! b = ArrayObj xs \<and> toJsonSafe h (Ref a) = Some (Inr out)"
  let ?kept = "filter (\<lambda>(k, v). \<not> dropped v \<and> k \<noteq> ''__proto__'') kvs"
  from asm toJsonSafe_fields[of a h out kvs] obtain ps where out: "out = OObj ps"
    and all: "list_all2 (\<lambda>(k, v) (k', y). k' = k \<and> field_result h {a} v y) ?kept ps"
    by blast
  have dist: "distinct (map fst ?kept)" using asm by (simp add: distinct_map_filter)
  have "(k, Ref b) \<in> set ?kept" using asm by (simp add: dropped_def)
  from list_all2_lookup[OF all dist this] obtain y where y: "map_of ps k = Some y"
    and "field_result h {a} (Ref b) y" by blast
  with asm obtain ys where "y = OArr ys" by (cases y) (auto simp: field_result_def)
  with out y show "\<exists>ps ys. out = OObj ps \<and> map_of ps k = Some (OArr ys)" by blast
qed

theorem toJsonSafe_top_level_array_witness:
  "toJsonSafe [ArrayObj [Prim (VNum (Fin 1)), Prim (VNum (Fin 2)), Prim (VNum (Fin 3))]] (Ref 0)
     = Some (Inr (OObj [(''0'', Raw (Prim (VNum (Fin 1)))), (''1'', Raw (Prim (VNum (Fin 2)))),
                        (''2'', Raw (Prim (VNum (Fin 3))))]))
   \<and> map fst [(''0'', Raw (Prim (VNum (Fin 1)))), (''1'', Raw (Prim (VNum (Fin 2)))), (''2'', Raw (Prim (VNum (Fin 3))))]
     = map fst (filter (\<lambda>(k, v). v \<noteq> Prim VUndefined \<and> v \<noteq> Prim VNull)
         (index_entries [Prim (VNum (Fin 1)), Prim (VNum (Fin 2)), Prim (VNum (Fin 3))]))
   \<and> toJsonSafe [PlainObj [(''a'', Ref 1)], ArrayObj [Prim (VNum (Fin 1)), Prim (VNum (Fin 2))]] (Ref 0)
     = Some (Inr (OObj [(''a'', OArr [Raw (Prim (VNum (Fin 1))), Raw (Prim (VNum (Fin 2)))])]))
   \<and> (\<exists>ys. map_of [(''a'', OArr [Raw (Prim (VNum (Fin 1))), Raw (Prim (VNum (Fin 2)))])] ''a'' = Some (OArr ys))"
proof -
  let ?xs = "[Prim (VNum (Fin 1)), Prim (VNum (Fin 2)), Prim (VNum (Fin 3))]"
  let ?ps = "[(''0'', Raw (Prim (VNum (Fin 1)))), (''1'', Raw (Prim (VNum (Fin 2)))), (''2'', Raw (Prim (VNum (Fin 3))))]"
  let ?h2 = "[PlainObj [(''a'', Ref 1)], ArrayObj [Prim (VNum (Fin 1)), Prim (VNum (Fin 2))]]"
  let ?qs = "[(''a'', OArr [Raw (Prim (VNum (Fin 1))), Raw (Prim (VNum (Fin 2)))])]"
  have ev1: "toJsonSafe [ArrayObj ?xs] (Ref 0) = Some (Inr (OObj ?ps))"
    by (simp add: toJsonSafe_def index_entries_def show_nat.simps digit_char_def catch_def as_object_def assign_def)
  have ev2: "toJsonSafe ?h2 (Ref 0) = Some (Inr (OObj ?qs))"
    by (simp add: toJsonSafe_def catch_def as_object_def assign_def)
  have h1: "0 < length [ArrayObj ?xs] \<and> ([ArrayObj ?xs] ! 0 = ArrayObj ?xs \<or> [ArrayObj ?xs] ! 0 = SetObj ?xs)"
    by simp
  have h2: "0 < length ?h2 \<and> ?h2 ! 0 = PlainObj [(''a'', Ref 1)] \<and> distinct (map fst [(''a'', Ref (1::nat))])
    \<and> (''a'', Ref 1) \<in> set [(''a'', Ref 1)] \<and> ?h2 ! 1 = ArrayObj [Prim (VNum (Fin 1)), Prim (VNum (Fin 2))]"
    by simp
  from h1 ev1 toJsonSafe_top_level_array[of 0 "[ArrayObj ?xs]" ?xs "OObj ?ps"]
  have k: "map fst ?ps = map fst (filter (\<lambda>(k, v). v \<noteq> Prim VUndefined \<and> v \<noteq> Prim VNull) (index_entries ?xs))"
    by blast
  from h2 ev2 toJsonSafe_top_level_array[of 0 ?h2 "[Prim (VNum (Fin 1)), Prim (VNum (Fin 2))]"
      "OObj ?qs" "[(''a'', Ref 1)]" "''a''" 1]
  have f: "\<exists>ys. map_of ?qs ''a'' = Some (OArr ys)" by blast
  from ev1 k ev2 f show ?thesis by blast
qed

text \<open>
  C3 at the input \<^verbatim>\<open>{s: new Set([1n])}\<close>: the big integer inside the nested set is stored as
  it is, so the result is not made of JSON-native values only, while the same set passed
  to toJsonSafe itself has its element converted to the string \<^verbatim>\<open>"1"\<close>.
\<close>

theorem toJsonSafe_nested_set_raw:
  "toJsonSafe [PlainObj [(''s'', Ref 1)], SetObj [Prim (VBigInt 1)]] (Ref 0)
     = Some (Inr (OObj [(''s'', OArr [Raw (Prim (VBigInt 1))])]))
   \<and> \<not> json_native (OObj [(''s'', OArr [Raw (Prim (VBigInt 1))])])
   \<and> toJsonSafe [PlainObj [(''s'', Ref 1)], SetObj [Prim (VBigInt 1)]] (Ref 1)
     = Some (Inr (OObj [(''0'', Raw (Prim (VStr ''1'')))]))"
  by (simp add: toJsonSafe_def index_entries_def show_nat.simps digit_char_def catch_def as_object_def assign_def
      bigint_toString_def)

text \<open>
  C4 at the input \<^verbatim>\<open>{a: y, b: y}\<close> with \<^verbatim>\<open>y = {v: 1}\<close>, which has no cycle: the content of
  \<open>y\<close> is in the result at the first occurrence only, and the second occurrence is the
  marker.
\<close>

theorem toJsonSafe_shared_object_marked:
  "toJsonSafe [PlainObj [(''a'', Ref 1), (''b'', Ref 1)], PlainObj [(''v'', Prim (VNum (Fin 1)))]] (Ref 0)
     = Some (Inr (OObj [(''a'', OObj [(''v'', Raw (Prim (VNum (Fin 1))))]), (''b'', circular_marker)]))"
  by (simp add: toJsonSafe_def catch_def as_object_def assign_def)

section \<open>Properties of the codec\<close>

subsection \<open>Validation\<close>

lemma andThen_Inr [simp]: "andThen r f = Inr y \<longleftrightarrow> (\<exists>x. r = Inr x \<and> f x = Inr y)"
  by (cases r) (simp_all add: andThen_def)

lemma andThen_simps [simp]: "andThen (Inr x) f = f x" "andThen (Inl e) f = Inl e"
  by (simp_all add: andThen_def)

lemma validate_example: "validatePaymentPayload example_payload = Inr example_payload"
  by (simp add: validatePaymentPayload_def example_payload_def example_authorization_def
      is_authorization_def starts_with_0x_def)

text \<open>
  C8: when validatePaymentPayload returns, it returns its argument.
\<close>

theorem validatePaymentPayload_returns_input:
  "validatePaymentPayload obj = Inr r \<Longrightarrow> r = obj"
  by (auto simp: validatePaymentPayload_def Let_def split: if_splits)

theorem validatePaymentPayload_returns_input_witness:
  "\<exists>r. validatePaymentPayload example_payload = Inr r \<and> r = example_payload"
  using validatePaymentPayload_returns_input[of example_payload example_payload] validate_example
  by blast

lemma typeof_bigint [simp]: "typeof x = ''bigint'' \<longleftrightarrow> (\<exists>i. x = Some (JBigInt i))"
  by (cases x rule: typeof.cases) simp_all

lemma typeof_string [simp]: "typeof x = ''string'' \<longleftrightarrow> (\<exists>s. x = Some (JStr s))"
  by (cases x rule: typeof.cases) simp_all

lemma readp_Some [simp]: "readp x k = Some v \<longleftrightarrow> (\<exists>ps. x = Some (JObj ps) \<and> map_of ps k = Some v)"
  by (cases "(x, k)" rule: readp.cases) simp_all

text \<open>
  C5, amended. For an object whose \<^verbatim>\<open>payload\<close> is an object:
  when the type is \<^verbatim>\<open>"authorization"\<close> or \<^verbatim>\<open>"authorizationEip3009"\<close> and the signature is
  absent, falsy or a string, validation returns the object if the authorization object
  is present, its \<^verbatim>\<open>value\<close>, \<^verbatim>\<open>validAfter\<close>, \<^verbatim>\<open>validBefore\<close> are big integers, its \<^verbatim>\<open>nonce\<close> and
  \<^verbatim>\<open>version\<close> are strings and the signature starts with \<^verbatim>\<open>0x\<close>, and fails with the
  authorization error otherwise; when the type is any other truthy value it fails with the
  unknown-payload-type error; when the type is falsy or absent it fails with the structure
  error.
\<close>

theorem validatePaymentPayload_cases:
  assumes "map_of fs ''payload'' = Some (JObj pl)" and "map_of pl ''type'' = ty"
  shows "((ty = Some (JStr ''authorization'') \<or> ty = Some (JStr ''authorizationEip3009'')) \<and>
          (\<forall>v. map_of pl ''signature'' = Some v \<and> truthy (Some v) \<longrightarrow> (\<exists>s. v = JStr s))
          \<longrightarrow> (if (\<exists>au i j k n w s. map_of pl ''authorization'' = Some (JObj au) \<and>
                    map_of au ''value'' = Some (JBigInt i) \<and> map_of au ''validAfter'' = Some (JBigInt j) \<and>
                    map_of au ''validBefore'' = Some (JBigInt k) \<and> map_of au ''nonce'' = Some (JStr n) \<and>
                    map_of au ''version'' = Some (JStr w) \<and>
                    map_of pl ''signature'' = Some (JStr s) \<and> take 2 s = ''0x'')
               then validatePaymentPayload (JObj fs) = Inr (JObj fs)
               else validatePaymentPayload (JObj fs) = Inl (Error ''Invalid authorization payload values'')))
       \<and> (truthy ty \<and> ty \<noteq> Some (JStr ''authorization'') \<and> ty \<noteq> Some (JStr ''authorizationEip3009'')
          \<longrightarrow> validatePaymentPayload (JObj fs) = Inl (Error ''Invalid payload type''))
       \<and> (\<not> truthy ty
          \<longrightarrow> validatePaymentPayload (JObj fs) = Inl (Error ''Invalid payment payload structure''))"
proof (intro conjI impI)
  assume a: "(ty = Some (JStr ''authorization'') \<or> ty = Some (JStr ''authorizationEip3009'')) \<and>
          (\<forall>v. map_of pl ''signature'' = Some v \<and> truthy (Some v) \<longrightarrow> (\<exists>s. v = JStr s))"
  then have ty: "truthy ty" "is_authorization ty"
    by (auto simp: is_authorization_def)
  let ?ok = "\<exists>au i j k n w s. map_of pl ''authorization'' = Some (JObj au) \<and>
                    map_of au ''value'' = Some (JBigInt i) \<and> map_of au ''validAfter'' = Some (JBigInt j) \<and>
                    map_of au ''validBefore'' = Some (JBigInt k) \<and> map_of au ''nonce'' = Some (JStr n) \<and>
                    map_of au ''version'' = Some (JStr w) \<and>
                    map_of pl ''signature'' = Some (JStr s) \<and> take 2 s = ''0x''"
  show "if ?ok then validatePaymentPayload (JObj fs) = Inr (JObj fs)
        else validatePaymentPayload (JObj fs) = Inl (Error ''Invalid authorization payload values'')"
  proof (cases ?ok)
    case True
    then obtain au i j k n w s where "map_of pl ''authorization'' = Some (JObj au)"
      "map_of au ''value'' = Some (JBigInt i)" "map_of au ''validAfter'' = Some (JBigInt j)"
      "map_of au ''validBefore'' = Some (JBigInt k)" "map_of au ''nonce'' = Some (JStr n)"
      "map_of au ''version'' = Some (JStr w)" "map_of pl ''signature'' = Some (JStr s)" "take 2 s = ''0x''"
      by blast
    moreover from this have "s \<noteq> []" by auto
    ultimately have "validatePaymentPayload (JObj fs) = Inr (JObj fs)"
      using assms ty by (simp add: validatePaymentPayload_def starts_with_0x_def)
    with True show ?thesis by simp
  next
    case False
    show ?thesis
    proof (cases "map_of pl ''signature''")
      case None
      with assms ty have "validatePaymentPayload (JObj fs) = Inl (Error ''Invalid authorization payload values'')"
        by (simp add: validatePaymentPayload_def)
      with False show ?thesis by simp
    next
      case (Some v)
      show ?thesis
      proof (cases "truthy (Some v)")
        case f: False
        with Some assms ty have "validatePaymentPayload (JObj fs) = Inl (Error ''Invalid authorization payload values'')"
          by (simp add: validatePaymentPayload_def)
        with False show ?thesis by simp
      next
        case t: True
        with a Some obtain s where s: "v = JStr s" by blast
        have "validatePaymentPayload (JObj fs) = Inl (Error ''Invalid authorization payload values'')"
          using False Some s assms ty t
          by (auto simp: validatePaymentPayload_def starts_with_0x_def Let_def)
        with False show ?thesis by simp
      qed
    qed
  qed
next
  assume "truthy ty \<and> ty \<noteq> Some (JStr ''authorization'') \<and> ty \<noteq> Some (JStr ''authorizationEip3009'')"
  with assms show "validatePaymentPayload (JObj fs) = Inl (Error ''Invalid payload type'')"
    by (simp add: validatePaymentPayload_def is_authorization_def)
next
  assume "\<not> truthy ty"
  with assms show "validatePaymentPayload (JObj fs) = Inl (Error ''Invalid payment payload structure'')"
    by (simp add: validatePaymentPayload_def)
qed


theorem validatePaymentPayload_cases_witness:
  "validatePaymentPayload example_payload = Inr example_payload
   \<and> validatePaymentPayload (JObj [(''payload'', JObj [(''type'', JStr ''foo'')])])
       = Inl (Error ''Invalid payload type'')
   \<and> validatePaymentPayload (JObj [(''payload'', JObj [(''type'', JStr [])])])
       = Inl (Error ''Invalid payment payload structure'')"
proof -
  let ?pl = "[(''type'', JStr ''authorization''), (''authorization'', JObj example_authorization),
              (''signature'', JStr ''0xdead'')]"
  let ?fs = "[(''x402Version'', JNum (Fin 1)), (''payload'', JObj ?pl)]"
  have 1: "validatePaymentPayload (JObj ?fs) = Inr (JObj ?fs)"
    using validatePaymentPayload_cases[of ?fs ?pl "Some (JStr ''authorization'')"]
    by (simp add: example_authorization_def)
  have 2: "validatePaymentPayload (JObj [(''payload'', JObj [(''type'', JStr ''foo'')])])
       = Inl (Error ''Invalid payload type'')"
    using validatePaymentPayload_cases[of "[(''payload'', JObj [(''type'', JStr ''foo'')])]"
        "[(''type'', JStr ''foo'')]" "Some (JStr ''foo'')"]
    by simp
  have 3: "validatePaymentPayload (JObj [(''payload'', JObj [(''type'', JStr [])])])
       = Inl (Error ''Invalid payment payload structure'')"
    using validatePaymentPayload_cases[of "[(''payload'', JObj [(''type'', JStr [])])]"
        "[(''type'', JStr [])]" "Some (JStr [])"]
    by simp
  from 1 2 3 show ?thesis by (simp add: example_payload_def)
qed

text \<open>
  C5 as stated fails at \<^verbatim>\<open>{payload: {type: ""}}\<close>: the type is a value other than the two
  authorization tags, and the failure is the structure error, not the
  unknown-payload-type error.
\<close>

theorem validatePaymentPayload_falsy_type_counterexample:
  "validatePaymentPayload (JObj [(''payload'', JObj [(''type'', JStr [])])])
     = Inl (Error ''Invalid payment payload structure'')
   \<and> Error ''Invalid payment payload structure'' \<noteq> Error ''Invalid payload type''"
  by (simp add: validatePaymentPayload_def)

subsection \<open>Decoding\<close>

text \<open>
  C2 as stated fails: the empty string and the string \<^verbatim>\<open>"0x10"\<close> are no base-10 numerals,
  and decodePaymentPayload returns the payload with them converted to \<open>0\<close> and \<open>16\<close>.
\<close>

theorem decodePaymentPayload_empty_numeral_counterexample:
  "decodePaymentPayload identity_platform
     (JsonText (JObj [(''payload'', JObj [(''type'', JStr ''authorization''),
        (''authorization'', JObj [(''value'', JStr []), (''validAfter'', JStr ''0x10''),
           (''validBefore'', JStr ''5''), (''nonce'', JStr ''n''), (''version'', JStr ''1'')]),
        (''signature'', JStr ''0xab'')])]))
   = Inr (JObj [(''payload'', JObj [(''type'', JStr ''authorization''),
        (''authorization'', JObj [(''value'', JBigInt 0), (''validAfter'', JBigInt 16),
           (''validBefore'', JBigInt 5), (''nonce'', JStr ''n''), (''version'', JStr ''1'')]),
        (''signature'', JStr ''0xab'')])])"
  by (simp add: decodePaymentPayload_def identity_platform_def is_authorization_def
      string_BigInt_def StringToBigInt_def trim_def is_space_def read_radix_def radix_val_def
      index_in_def set_prop_def validatePaymentPayload_def starts_with_0x_def)

text \<open>
  C2, amended. When the decoded JSON tree has one of the two authorization types and the
  \<^verbatim>\<open>value\<close>, \<^verbatim>\<open>validAfter\<close> or \<^verbatim>\<open>validBefore\<close> of its authorization object is a string that
  \<^verbatim>\<open>BigInt\<close> does not read as a literal, decodePaymentPayload fails. (The literals are,
  between white space: nothing, a decimal numeral with an optional sign, and the
  numerals with a prefix \<^verbatim>\<open>0x\<close>, \<^verbatim>\<open>0o\<close> or \<^verbatim>\<open>0b\<close>.)
\<close>

theorem decodePaymentPayload_rejects_non_literal:
  assumes "safeBase64Decode env w = JsonText (JObj fs)"
    and "map_of fs ''payload'' = Some (JObj pl)"
    and "map_of pl ''type'' = Some (JStr ''authorization'') \<or> map_of pl ''type'' = Some (JStr ''authorizationEip3009'')"
    and "map_of pl ''authorization'' = Some (JObj au)"
    and "k = ''value'' \<or> k = ''validAfter'' \<or> k = ''validBefore''"
    and "map_of au k = Some (JStr s)" and "StringToBigInt s = None"
  shows "\<exists>e. decodePaymentPayload env w = Inl e"
proof (cases "decodePaymentPayload env w")
  case (Inl e)
  then show ?thesis by blast
next
  case (Inr r)
  from assms(3) have ty: "is_authorization (map_of pl ''type'')" by (simp add: is_authorization_def)
  from Inr assms(1,2,4) ty obtain i j l where
    "js_BigInt (numberToString env) (map_of au ''value'') = Inr i"
    "js_BigInt (numberToString env) (map_of au ''validAfter'') = Inr j"
    "js_BigInt (numberToString env) (map_of au ''validBefore'') = Inr l"
    by (auto simp: decodePaymentPayload_def)
  with assms(5,6) obtain m where "js_BigInt (numberToString env) (Some (JStr s)) = Inr m" by auto
  with assms(7) show ?thesis by (simp add: string_BigInt_def)
qed

theorem decodePaymentPayload_rejects_non_literal_witness:
  "StringToBigInt ''12abc'' = None \<and>
   (\<exists>e. decodePaymentPayload identity_platform
     (JsonText (JObj [(''payload'', JObj [(''type'', JStr ''authorization''),
        (''authorization'', JObj [(''value'', JStr ''12abc''), (''validAfter'', JStr ''0''),
           (''validBefore'', JStr ''5''), (''nonce'', JStr ''n''), (''version'', JStr ''1'')]),
        (''signature'', JStr ''0xab'')])])) = Inl e)"
proof -
  let ?au = "[(''value'', JStr ''12abc''), (''validAfter'', JStr ''0''),
           (''validBefore'', JStr ''5''), (''nonce'', JStr ''n''), (''version'', JStr ''1'')]"
  let ?pl = "[(''type'', JStr ''authorization''), (''authorization'', JObj ?au), (''signature'', JStr ''0xab'')]"
  let ?fs = "[(''payload'', JObj ?pl)]"
  have n: "StringToBigInt ''12abc'' = None"
    by (simp add: StringToBigInt_def trim_def is_space_def read_radix_def)
  have d: "safeBase64Decode identity_platform (JsonText (JObj ?fs)) = JsonText (JObj ?fs)"
    by (simp add: identity_platform_def)
  have "\<exists>e. decodePaymentPayload identity_platform (JsonText (JObj ?fs)) = Inl e"
    by (rule decodePaymentPayload_rejects_non_literal[OF d, of ?pl ?au "''value''" "''12abc''"])
       (simp_all add: n)
  with n show ?thesis by blast
qed

section \<open>Properties of the facilitator client\<close>

text \<open>
  C9 as stated fails at a 402 response with the body \<^verbatim>\<open>{"error": ""}\<close>: the body parses as
  JSON and has an error field, and the message returned is the generic one, not the
  field.
\<close>

theorem verify_empty_error_counterexample:
  "verify \<lparr>status = 402, statusText = ''Payment Required'',
           json = Inr (JObj [(''error'', JStr [])])\<rparr>
     = Inr (JObj [(''isValid'', JBool False),
                  (''errorMessage'', JStr ''Failed to verify payment: Payment Required'')])"
  by (simp add: verify_def)

text \<open>
  C9, amended. On a response whose status is not 200, \<^verbatim>\<open>verify\<close> returns
  \<^verbatim>\<open>{isValid: false, errorMessage}\<close> and raises nothing; \<^verbatim>\<open>errorMessage\<close> is the \<^verbatim>\<open>error\<close> field of
  the JSON body when the body parses, is an object and has a truthy \<^verbatim>\<open>error\<close> field, and the
  message \<^verbatim>\<open>Failed to verify payment:\<close> with the status text otherwise.
\<close>

theorem verify_non_200:
  assumes "status res \<noteq> 200"
  shows "(json res = Inr (JObj ps) \<and> map_of ps ''error'' = Some err \<and> truthy (Some err)
          \<longrightarrow> verify res = Inr (JObj [(''isValid'', JBool False), (''errorMessage'', err)]))
       \<and> ((\<forall>ps err. json res = Inr (JObj ps) \<and> map_of ps ''error'' = Some err \<longrightarrow> \<not> truthy (Some err))
          \<longrightarrow> verify res = Inr (JObj [(''isValid'', JBool False),
                 (''errorMessage'', JStr (''Failed to verify payment: '' @ statusText res))]))"
proof (intro conjI impI)
  assume "json res = Inr (JObj ps) \<and> map_of ps ''error'' = Some err \<and> truthy (Some err)"
  with assms show "verify res = Inr (JObj [(''isValid'', JBool False), (''errorMessage'', err)])"
    by (simp add: verify_def)
next
  assume none: "\<forall>ps err. json res = Inr (JObj ps) \<and> map_of ps ''error'' = Some err \<longrightarrow> \<not> truthy (Some err)"
  show "verify res = Inr (JObj [(''isValid'', JBool False),
                 (''errorMessage'', JStr (''Failed to verify payment: '' @ statusText res))])"
  proof (cases "json res")
    case (Inl e)
    with assms show ?thesis by (simp add: verify_def)
  next
    case (Inr errorData)
    show ?thesis
    proof (cases errorData)
      case (JObj qs)
      with Inr none have "\<And>err. map_of qs ''error'' = Some err \<Longrightarrow> \<not> truthy (Some err)" by blast
      with assms Inr JObj show ?thesis
        by (cases "map_of qs ''error''") (simp_all add: verify_def)
    qed (use assms Inr in \<open>simp_all add: verify_def\<close>)
  qed
qed

theorem verify_non_200_witness:
  "verify \<lparr>status = 402, statusText = ''Payment Required'',
           json = Inr (JObj [(''error'', JStr ''insufficient funds'')])\<rparr>
     = Inr (JObj [(''isValid'', JBool False), (''errorMessage'', JStr ''insufficient funds'')])
   \<and> verify \<lparr>status = 500, statusText = ''Internal Server Error'',
           json = Inl (SyntaxError ''Unexpected token in JSON'')\<rparr>
     = Inr (JObj [(''isValid'', JBool False),
                  (''errorMessage'', JStr ''Failed to verify payment: Internal Server Error'')])"
proof -
  let ?r1 = "\<lparr>status = 402, statusText = ''Payment Required'',
           json = Inr (JObj [(''error'', JStr ''insufficient funds'')])\<rparr>"
  let ?r2 = "\<lparr>status = 500, statusText = ''Internal Server Error'',
           json = Inl (SyntaxError ''Unexpected token in JSON'')\<rparr>"
  have "status ?r1 \<noteq> 200" by simp
  from verify_non_200[OF this, of "[(''error'', JStr ''insufficient funds'')]" "JStr ''insufficient funds''"]
  have 1: "verify ?r1 = Inr (JObj [(''isValid'', JBool False), (''errorMessage'', JStr ''insufficient funds'')])"
    by simp
  have "status ?r2 \<noteq> 200" by simp
  from verify_non_200[OF this]
  have 2: "verify ?r2 = Inr (JObj [(''isValid'', JBool False),
                  (''errorMessage'', JStr ''Failed to verify payment: Internal Server Error'')])"
    by simp
  from 1 2 show ?thesis by blast
qed

section \<open>The round trip of the codec\<close>

subsection \<open>Big integers survive the conversion to text and back\<close>

lemma read_radix_show_nat: "read_radix 10 ''0123456789'' (show_nat n) = Some n"
proof -
  have "list_all (\<lambda>c. c \<in> set ''0123456789'') (show_nat n)"
    using show_nat_digits[of n] unfolding list_all_iff by blast
  then show ?thesis
    unfolding read_radix_def using show_nat_nonempty[of n] show_nat_value[of n] by simp
qed

lemma digits_no_space: "c \<in> set ''0123456789'' \<Longrightarrow> \<not> is_space c"
  by (auto simp: is_space_def)

lemma trim_no_space:
  assumes "s \<noteq> []" and "\<not> is_space (hd s)" and "\<not> is_space (last s)"
  shows "trim s = s"
proof -
  from assms have "dropWhile is_space s = s" by (cases s) simp_all
  moreover from assms have "dropWhile is_space (rev s) = rev s"
    by (cases "rev s") (simp_all add: last_rev[symmetric] hd_rev)
  ultimately show ?thesis by (simp add: trim_def)
qed

lemma StringToBigInt_show_nat: "StringToBigInt (show_nat n) = Some (int n)"
proof -
  let ?s = "show_nat n"
  have ne: "?s \<noteq> []" by (rule show_nat_nonempty)
  have dig: "\<And>c. c \<in> set ?s \<Longrightarrow> c \<in> set ''0123456789''" using show_nat_digits by blast
  have "hd ?s \<in> set ?s" "last ?s \<in> set ?s" using ne by simp_all
  then have hl: "hd ?s \<in> set ''0123456789''" "last ?s \<in> set ''0123456789''" by (auto dest: dig)
  then have t: "trim ?s = ?s" using ne by (intro trim_no_space digits_no_space)
  have pre: "take 2 ?s \<noteq> [a, b]" if "b \<notin> set ''0123456789''" for a b
  proof
    assume "take 2 ?s = [a, b]"
    then have "b \<in> set (take 2 ?s)" by simp
    then have "b \<in> set ?s" by (rule in_set_takeD)
    with that dig show False by blast
  qed
  have p: "take 2 ?s \<noteq> ''0x''" "take 2 ?s \<noteq> ''0X''" "take 2 ?s \<noteq> ''0o''" "take 2 ?s \<noteq> ''0O''"
    "take 2 ?s \<noteq> ''0b''" "take 2 ?s \<noteq> ''0B''"
    by (rule pre, simp)+
  have sgn: "hd ?s \<noteq> CHR ''+''" "hd ?s \<noteq> CHR ''-''" using hl(1) by auto
  show ?thesis
    unfolding StringToBigInt_def Let_def t using ne p sgn read_radix_show_nat[of n] by simp
qed

lemma js_BigInt_toString:
  "0 \<le> i \<Longrightarrow> js_BigInt nt (Some (JStr (bigint_toString i))) = Inr i"
  by (simp add: string_BigInt_def bigint_toString_def StringToBigInt_show_nat)

subsection \<open>Overwriting a property\<close>

lemma set_prop_present:
  "k \<in> fst ` set ps \<Longrightarrow>
     set_prop ps k v = map (\<lambda>(k', v'). if k' = k then (k', v) else (k', v')) ps"
  by (simp add: set_prop_def)

lemma set_prop_keys: "k \<in> fst ` set ps \<Longrightarrow> map fst (set_prop ps k v) = map fst ps"
  by (simp add: set_prop_present) (induction ps, auto)

lemma map_of_overwrite:
  "map_of (map (\<lambda>(k', v'). if k' = k then (k', v) else (k', v')) ps) x =
     (if x = k then (if k \<in> fst ` set ps then Some v else None) else map_of ps x)"
  by (induction ps) force+

lemma map_of_set_prop:
  "k \<in> fst ` set ps \<Longrightarrow> map_of (set_prop ps k v) x = (if x = k then Some v else map_of ps x)"
  by (simp only: set_prop_present map_of_overwrite) simp

lemma alist_eqI:
  "map fst xs = map fst ys \<Longrightarrow> distinct (map fst xs) \<Longrightarrow> (\<And>k. map_of xs k = map_of ys k) \<Longrightarrow> xs = ys"
proof (induction xs arbitrary: ys)
  case Nil
  then show ?case by simp
next
  case (Cons x xs)
  then obtain y ys' where ys: "ys = y # ys'" by (cases ys) auto
  obtain k v where x: "x = (k, v)" by (cases x)
  from Cons.prems(1) ys x obtain v' where y: "y = (k, v')" by (cases y) auto
  from Cons.prems(3)[of k] x y ys have "v = v'" by simp
  have "xs = ys'"
  proof (rule Cons.IH)
    show "map fst xs = map fst ys'" using Cons.prems(1) ys by simp
    show "distinct (map fst xs)" using Cons.prems(2) by simp
    fix k'
    show "map_of xs k' = map_of ys' k'"
    proof (cases "k' = k")
      case True
      from Cons.prems(2) x have nx: "k \<notin> set (map fst xs)" by simp
      moreover from Cons.prems(1) ys have "map fst xs = map fst ys'" by simp
      ultimately have ny: "k \<notin> set (map fst ys')" by simp
      from nx have "map_of xs k = None" by (simp add: map_of_eq_None_iff)
      moreover from ny have "map_of ys' k = None" by (simp add: map_of_eq_None_iff)
      ultimately show ?thesis using True by simp
    next
      case False
      with Cons.prems(3)[of k'] x y ys show ?thesis by simp
    qed
  qed
  with x y \<open>v = v'\<close> ys show ?case by simp
qed

lemma set_prop_same:
  assumes "distinct (map fst ps)" and "map_of ps k = Some v"
  shows "set_prop (set_prop ps k w) k v = ps"
proof -
  from assms(2) have k: "k \<in> fst ` set ps" by (force dest: map_of_SomeD)
  have "set (map fst (set_prop ps k w)) = set (map fst ps)" by (simp add: set_prop_keys[OF k])
  with k have k': "k \<in> fst ` set (set_prop ps k w)" by simp
  show ?thesis
  proof (rule alist_eqI)
    show "map fst (set_prop (set_prop ps k w) k v) = map fst ps"
      by (simp add: set_prop_keys k k')
    then show "distinct (map fst (set_prop (set_prop ps k w) k v))" using assms(1) by simp
    fix x
    show "map_of (set_prop (set_prop ps k w) k v) x = map_of ps x"
      using assms(2) by (simp add: map_of_set_prop k k')
  qed
qed

subsection \<open>Serializing JSON data\<close>

lemma json_data_written: "json_data v \<Longrightarrow> \<not> has_bigint v \<and> json_written v = v"
proof (induction v)
  case (JNum x)
  then show ?case by (cases x) simp_all
next
  case (JArr xs)
  then show ?case by (auto simp: list_all_iff list_ex_iff intro: map_idI)
next
  case (JObj ps)
  have "\<not> has_bigint v \<and> json_written v = v" if "(k, v) \<in> set ps" for k v
  proof -
    from that JObj.prems have "json_data v" by (auto simp: list_all_iff)
    moreover from that have "v \<in> Basic_BNFs.snds (k, v)" "(k, v) \<in> set ps" by simp_all
    ultimately show ?thesis using JObj.IH by blast
  qed
  then show ?case by (auto simp: list_ex_iff intro!: map_idI)
qed simp_all

lemma JSON_stringify_data: "json_data v \<Longrightarrow> JSON_stringify v = Inr (JsonText v)"
  by (simp add: JSON_stringify_def json_data_written)

lemma set_prop_dom: "k \<in> fst ` set ps \<Longrightarrow> fst ` set (set_prop ps k v) = fst ` set ps"
  using set_prop_keys[of k ps v] by (metis set_map)

lemma map_of_dom: "map_of ps k = Some v \<Longrightarrow> k \<in> fst ` set ps"
  by (force dest: map_of_SomeD)


text \<open>
  The authorization object with its three big integers written as numerals, as
  encodePaymentPayload builds it, and read back, as decodePaymentPayload builds it.
\<close>

lemma authorization_written:
  assumes "distinct (map fst au)"
    and "map_of au ''value'' = Some a" and "map_of au ''validAfter'' = Some b"
    and "map_of au ''validBefore'' = Some c"
  shows "map fst (set_prop (set_prop (set_prop au ''value'' a') ''validAfter'' b') ''validBefore'' c')
           = map fst au"
    and "map_of (set_prop (set_prop (set_prop au ''value'' a') ''validAfter'' b') ''validBefore'' c') x
           = (if x = ''value'' then Some a' else if x = ''validAfter'' then Some b'
              else if x = ''validBefore'' then Some c' else map_of au x)"
proof -
  have k: "''value'' \<in> fst ` set au" "''validAfter'' \<in> fst ` set au" "''validBefore'' \<in> fst ` set au"
    using assms(2-4) by (auto dest: map_of_dom)
  show "map fst (set_prop (set_prop (set_prop au ''value'' a') ''validAfter'' b') ''validBefore'' c')
           = map fst au"
    using k by (simp add: set_prop_keys set_prop_dom)
  show "map_of (set_prop (set_prop (set_prop au ''value'' a') ''validAfter'' b') ''validBefore'' c') x
           = (if x = ''value'' then Some a' else if x = ''validAfter'' then Some b'
              else if x = ''validBefore'' then Some c' else map_of au x)"
    using k by (simp add: map_of_set_prop set_prop_dom)
qed

lemma authorization_read_back:
  assumes "distinct (map fst au)"
    and "map_of au ''value'' = Some a" and "map_of au ''validAfter'' = Some b"
    and "map_of au ''validBefore'' = Some c"
  shows "set_prop (set_prop (set_prop
           (set_prop (set_prop (set_prop au ''value'' a') ''validAfter'' b') ''validBefore'' c')
           ''value'' a) ''validAfter'' b) ''validBefore'' c = au"
proof -
  let ?w = "set_prop (set_prop (set_prop au ''value'' a') ''validAfter'' b') ''validBefore'' c'"
  note w = authorization_written[OF assms, of a' b' c']
  have dw: "distinct (map fst ?w)" using w(1) assms(1) by simp
  have mw: "map_of ?w ''value'' = Some a'" "map_of ?w ''validAfter'' = Some b'"
    "map_of ?w ''validBefore'' = Some c'" by (simp_all add: w(2))
  note r = authorization_written[OF dw mw, of a b c]
  show ?thesis
  proof (rule alist_eqI)
    show "map fst (set_prop (set_prop (set_prop ?w ''value'' a) ''validAfter'' b) ''validBefore'' c) = map fst au"
      using r(1) w(1) by simp
    then show "distinct (map fst (set_prop (set_prop (set_prop ?w ''value'' a) ''validAfter'' b) ''validBefore'' c))"
      using assms(1) by simp
    fix x
    show "map_of (set_prop (set_prop (set_prop ?w ''value'' a) ''validAfter'' b) ''validBefore'' c) x = map_of au x"
      using assms(2-4) by (simp add: r(2) w(2))
  qed
qed


lemma string_BigInt_toString: "0 \<le> i \<Longrightarrow> string_BigInt (bigint_toString i) = Inr i"
  using js_BigInt_toString[of i] by simp

lemma set_set_prop:
  "k \<in> fst ` set ps \<Longrightarrow> set (set_prop ps k v) = insert (k, v) {(k', x). (k', x) \<in> set ps \<and> k' \<noteq> k}"
  unfolding set_prop_present by (auto simp: image_iff split: if_splits) force+

lemma json_data_set_prop:
  assumes "k \<in> fst ` set ps" and "json_data v"
    and "\<And>k' x. (k', x) \<in> set ps \<Longrightarrow> k' \<noteq> k \<Longrightarrow> json_data x"
  shows "json_data (JObj (set_prop ps k v))"
  using assms by (auto simp: list_all_iff set_set_prop)

text \<open>
  C1: for a payload of one of the two authorization types whose \<^verbatim>\<open>value\<close>, \<^verbatim>\<open>validAfter\<close> and
  \<^verbatim>\<open>validBefore\<close> are non-negative big integers of any size, whose \<^verbatim>\<open>nonce\<close> and \<^verbatim>\<open>version\<close>
  are strings, whose signature is a string that starts with \<^verbatim>\<open>0x\<close>, and whose other
  fields are JSON data, encodePaymentPayload returns a string, and decodePaymentPayload
  on that string returns the payload, equal field for field, when the base64 transform
  decodes what it encoded.
\<close>

theorem decode_encode_roundtrip:
  assumes b64: "\<forall>t. safeBase64Decode env (safeBase64Encode env t) = t"
    and dist: "distinct (map fst fs)" "distinct (map fst pl)" "distinct (map fst au)"
    and payload: "map_of fs ''payload'' = Some (JObj pl)"
    and ty: "map_of pl ''type'' = Some (JStr ''authorization'') \<or>
             map_of pl ''type'' = Some (JStr ''authorizationEip3009'')"
    and auth: "map_of pl ''authorization'' = Some (JObj au)"
    and num: "map_of au ''value'' = Some (JBigInt v)" "map_of au ''validAfter'' = Some (JBigInt va)"
      "map_of au ''validBefore'' = Some (JBigInt vb)"
    and nonneg: "0 \<le> v" "0 \<le> va" "0 \<le> vb"
    and str: "map_of au ''nonce'' = Some (JStr nonce)" "map_of au ''version'' = Some (JStr version)"
    and sig: "map_of pl ''signature'' = Some (JStr sg)" "take 2 sg = ''0x''"
    and rest: "\<forall>(k, x) \<in> set fs. k \<noteq> ''payload'' \<longrightarrow> json_data x"
      "\<forall>(k, x) \<in> set pl. k \<noteq> ''authorization'' \<longrightarrow> json_data x"
      "\<forall>(k, x) \<in> set au. k \<noteq> ''value'' \<and> k \<noteq> ''validAfter'' \<and> k \<noteq> ''validBefore'' \<longrightarrow> json_data x"
  shows "\<exists>w. encodePaymentPayload env (JObj fs) = Inr w \<and> decodePaymentPayload env w = Inr (JObj fs)"
proof -
  define au' where "au' = set_prop (set_prop (set_prop au ''value'' (JStr (bigint_toString v)))
      ''validAfter'' (JStr (bigint_toString va))) ''validBefore'' (JStr (bigint_toString vb))"
  define pl' where "pl' = set_prop pl ''authorization'' (JObj au')"
  define fs' where "fs' = set_prop fs ''payload'' (JObj pl')"
  note w = authorization_written[OF dist(3) num, of "JStr (bigint_toString v)"
      "JStr (bigint_toString va)" "JStr (bigint_toString vb)", folded au'_def]
  have kp: "''authorization'' \<in> fst ` set pl" using auth by (rule map_of_dom)
  have kf: "''payload'' \<in> fst ` set fs" using payload by (rule map_of_dom)
  have isa: "is_authorization (map_of pl ''type'')" using ty by (simp add: is_authorization_def)

  have "list_all (\<lambda>(k, x). json_data x) au'"
    unfolding list_all_iff
  proof (intro ballI, clarify)
    fix k x assume "(k, x) \<in> set au'"
    then have m: "map_of au' k = Some x" using w(1) dist(3) by (simp add: map_of_eq_Some_iff)
    show "json_data x"
    proof (cases "k = ''value'' \<or> k = ''validAfter'' \<or> k = ''validBefore''")
      case True
      with m show ?thesis by (auto simp: w(2))
    next
      case False
      with m have "map_of au k = Some x" by (simp add: w(2))
      then have "(k, x) \<in> set au" by (rule map_of_SomeD)
      with rest(3) False show ?thesis by blast
    qed
  qed
  then have jau: "json_data (JObj au')" by simp
  have jpl: "json_data (JObj pl')"
    unfolding pl'_def using kp jau rest(2) by (intro json_data_set_prop) auto
  have jfs: "json_data (JObj fs')"
    unfolding fs'_def using kf jpl rest(1) by (intro json_data_set_prop) auto

  have enc: "encodePaymentPayload env (JObj fs) = Inr (safeBase64Encode env (JsonText (JObj fs')))"
    using payload auth num isa JSON_stringify_data[OF jfs]
    by (simp add: encodePaymentPayload_def au'_def pl'_def fs'_def)

  have m1: "map_of fs' ''payload'' = Some (JObj pl')"
    unfolding fs'_def using kf by (simp add: map_of_set_prop)
  have m2: "map_of pl' ''type'' = map_of pl ''type''" "map_of pl' ''authorization'' = Some (JObj au')"
    unfolding pl'_def using kp by (simp_all add: map_of_set_prop)
  have au_back: "set_prop (set_prop (set_prop au' ''value'' (JBigInt v)) ''validAfter'' (JBigInt va))
      ''validBefore'' (JBigInt vb) = au"
    unfolding au'_def by (rule authorization_read_back[OF dist(3) num])
  have pl_back: "set_prop pl' ''authorization'' (JObj au) = pl"
    unfolding pl'_def by (rule set_prop_same[OF dist(2) auth])
  have fs_back: "set_prop fs' ''payload'' (JObj pl) = fs"
    unfolding fs'_def by (rule set_prop_same[OF dist(1) payload])
  from sig(2) have sg: "sg \<noteq> []" by auto
  from ty have tr: "truthy (map_of pl ''type'')" by auto
  have val: "validatePaymentPayload (JObj fs) = Inr (JObj fs)"
    using payload auth num str sig sg isa tr
    by (simp add: validatePaymentPayload_def starts_with_0x_def)
  have dec: "decodePaymentPayload env (safeBase64Encode env (JsonText (JObj fs'))) = Inr (JObj fs)"
    using b64 m1 m2 isa nonneg
    by (simp add: decodePaymentPayload_def w(2) string_BigInt_toString au_back pl_back fs_back val)
  from enc dec show ?thesis by blast
qed


theorem decode_encode_roundtrip_witness:
  "(\<forall>t. safeBase64Decode identity_platform (safeBase64Encode identity_platform t) = t) \<and>
   map_of example_authorization ''value'' = Some (JBigInt (2 ^ 200)) \<and>
   (\<exists>w. encodePaymentPayload identity_platform example_payload = Inr w \<and>
        decodePaymentPayload identity_platform w = Inr example_payload)"
proof -
  let ?pl = "[(''type'', JStr ''authorization''), (''authorization'', JObj example_authorization),
              (''signature'', JStr ''0xdead'')]"
  let ?fs = "[(''x402Version'', JNum (Fin 1)), (''payload'', JObj ?pl)]"
  have b: "\<forall>t. safeBase64Decode identity_platform (safeBase64Encode identity_platform t) = t"
    by (simp add: identity_platform_def)
  have v: "map_of example_authorization ''value'' = Some (JBigInt (2 ^ 200))"
    by (simp add: example_authorization_def)
  have "\<exists>w. encodePaymentPayload identity_platform (JObj ?fs) = Inr w \<and>
        decodePaymentPayload identity_platform w = Inr (JObj ?fs)"
    by (rule decode_encode_roundtrip[OF b, of ?fs ?pl example_authorization "2 ^ 200" 0 1893456000
          "''0x01''" "''1''" "''0xdead''"])
       (simp_all add: example_authorization_def)
  with b v show ?thesis by (simp add: example_payload_def)
qed

end
